theory Spec2Isabelle
  imports Complex_Main "HOL-Library.Sublist"
begin

section \<open>Python strings\<close>

text \<open>
  A Python \<open>str\<close> is a sequence of Unicode code points, and \<open>len\<close>, slicing and
  \<open>strip\<close> count code points.  A string is therefore a list of code points; the
  literals of the source are written out as such lists.
\<close>

type_synonym ustring = "nat list"

definition HYPHEN :: nat where "HYPHEN = 45"
definition NEWLINE :: nat where "NEWLINE = 10"
definition SPACE :: nat where "SPACE = 32"

text \<open>\<open>str.isspace\<close> on one code point: the 29 code points Python treats as whitespace.\<close>

definition py_isspace :: "nat \<Rightarrow> bool" where
  "py_isspace c \<longleftrightarrow>
     (9 \<le> c \<and> c \<le> 13) \<or> (28 \<le> c \<and> c \<le> 32) \<or> c = 133 \<or> c = 160 \<or> c = 5760 \<or>
     (8192 \<le> c \<and> c \<le> 8202) \<or> c = 8232 \<or> c = 8233 \<or> c = 8239 \<or> c = 8287 \<or> c = 12288"

text \<open>\<open>s.strip()\<close>: leading and trailing whitespace removed.\<close>

definition strip :: "ustring \<Rightarrow> ustring" where
  "strip s = rev (dropWhile py_isspace (rev (dropWhile py_isspace s)))"

text \<open>\<open>s.rstrip(chars)\<close> removes every trailing character that occurs in \<open>chars\<close>;
  \<open>s.strip(chars)\<close> does so at both ends.\<close>

definition rstrip_chars :: "ustring \<Rightarrow> ustring \<Rightarrow> ustring" where
  "rstrip_chars chars s = rev (dropWhile (\<lambda>c. c \<in> set chars) (rev s))"

definition strip_chars :: "ustring \<Rightarrow> ustring \<Rightarrow> ustring" where
  "strip_chars chars s = rstrip_chars chars (dropWhile (\<lambda>c. c \<in> set chars) s)"

text \<open>\<open>s.endswith(suf)\<close>.\<close>

definition endswith :: "ustring \<Rightarrow> ustring \<Rightarrow> bool" where
  "endswith s suf \<longleftrightarrow> length suf \<le> length s \<and> drop (length s - length suf) s = suf"

text \<open>\<open>sep.join(parts)\<close>.\<close>

fun join :: "ustring \<Rightarrow> ustring list \<Rightarrow> ustring" where
  "join sep [] = []"
| "join sep [x] = x"
| "join sep (x # y # ys) = x @ sep @ join sep (y # ys)"

text \<open>\<open>s.split(c)\<close> for a one-character separator: \<open>n\<close> separators give \<open>n + 1\<close> pieces.\<close>

fun split_on :: "nat \<Rightarrow> ustring \<Rightarrow> ustring \<Rightarrow> ustring list" where
  "split_on c [] cur = [cur]"
| "split_on c (x # xs) cur = (if x = c then cur # split_on c xs [] else split_on c xs (cur @ [x]))"

definition split :: "ustring \<Rightarrow> nat \<Rightarrow> ustring list" where
  "split s c = split_on c s []"


section \<open>Exceptions and the documents of a PDF\<close>

text \<open>An exception carries the text that \<open>str(e)\<close> gives.\<close>

datatype exn = Exception (message: ustring)

text \<open>An element of a page layout: a text container with its \<open>get_text()\<close>, or
  anything else (figures, lines, ...), which the extraction skips.\<close>

datatype element = LTTextContainer (get_text: ustring) | LTOther

type_synonym page_layout = "element list"

datatype meta_value = MStr ustring | MInt int

record document =
  doc_text :: ustring
  doc_metadata :: "(ustring \<times> meta_value) list"

record text_node =
  node_text :: ustring
  node_metadata :: "(ustring \<times> meta_value) list"

text \<open>The lines the ingestion prints on the console, one constructor per \<open>print\<close>.\<close>

datatype console_line =
    ExtractingPdf ustring
  | NoTextExtracted
  | SplitInto nat
  | ExtractFailed exn
  | DocumentsBuilt nat

text \<open>
  The collaborators of the ingestion: pdfminer's \<open>extract_pages\<close> and the semantic
  splitter's \<open>get_nodes_from_documents\<close> on one document, either of which may raise.
\<close>

record ingest_env =
  extract_pages :: "ustring \<Rightarrow> exn + page_layout list"
  get_nodes_from_documents :: "ustring \<Rightarrow> exn + ustring list"


section \<open>document\_indexing.py: DataIngestion\<close>

text \<open>The metadata keys and values of the source, as code points.\<close>

definition key_source :: ustring where
  "key_source = [115, 111, 117, 114, 99, 101]"
definition key_paragraph_id :: ustring where
  "key_paragraph_id = [112, 97, 114, 97, 103, 114, 97, 112, 104, 95, 105, 100]"
definition key_text_id :: ustring where
  "key_text_id = [116, 101, 120, 116, 95, 105, 100]"
definition key_source_type :: ustring where
  "key_source_type = [115, 111, 117, 114, 99, 101, 95, 116, 121, 112, 101]"
definition str_pdf :: ustring where
  "str_pdf = [112, 100, 102]"
definition str_text :: ustring where
  "str_text = [116, 101, 120, 116]"

text \<open>Lines 106-107: \<open>if text.endswith('-\n'): text = text.rstrip('-\n')\<close>.\<close>

definition dehyphenate :: "ustring \<Rightarrow> ustring" where
  "dehyphenate t =
     (if endswith t [HYPHEN, NEWLINE] then rstrip_chars [HYPHEN, NEWLINE] t else t)"

text \<open>Lines 102-108: the loop over the elements of one page, appending to \<open>full_text\<close>.\<close>

fun element_loop :: "element list \<Rightarrow> ustring \<Rightarrow> ustring" where
  "element_loop [] full_text = full_text"
| "element_loop (LTTextContainer t # es) full_text = element_loop es (full_text @ dehyphenate t)"
| "element_loop (LTOther # es) full_text = element_loop es full_text"

text \<open>Lines 98-108: the loop over the enumerated pages, with the page filter.\<close>

fun page_loop :: "nat \<Rightarrow> page_layout list \<Rightarrow> int list option \<Rightarrow> ustring \<Rightarrow> ustring" where
  "page_loop i [] page_numbers full_text = full_text"
| "page_loop i (p # ps) page_numbers full_text =
     (case page_numbers of
        None \<Rightarrow> page_loop (Suc i) ps page_numbers (element_loop p full_text)
      | Some pn \<Rightarrow>
          if int i \<notin> set pn then page_loop (Suc i) ps page_numbers full_text
          else page_loop (Suc i) ps page_numbers (element_loop p full_text))"

text \<open>\<open>DataIngestion.extract_text_from_pdf\<close>: what it prints and what it returns.\<close>

definition extract_text_from_pdf ::
  "ingest_env \<Rightarrow> ustring \<Rightarrow> int list option \<Rightarrow> console_line list \<times> ustring list" where
  "extract_text_from_pdf env pdf_path page_numbers =
     (case extract_pages env pdf_path of
        Inl e \<Rightarrow> ([ExtractingPdf pdf_path, ExtractFailed e], [])
      | Inr pages \<Rightarrow>
          let full_text = page_loop 0 pages page_numbers [] in
          if strip full_text = [] then ([ExtractingPdf pdf_path, NoTextExtracted], [])
          else
            (case get_nodes_from_documents env (strip full_text) of
               Inl e \<Rightarrow> ([ExtractingPdf pdf_path, ExtractFailed e], [])
             | Inr nodes \<Rightarrow>
                 let text_chunks = filter (\<lambda>t. strip t \<noteq> []) nodes in
                 ([ExtractingPdf pdf_path, SplitInto (length text_chunks)], text_chunks)))"

text \<open>Lines 144-154 and 172-182: the loops that build the documents, skipping every
  entry whose stripped text is empty; the index \<open>i\<close> counts the skipped entries too.\<close>

fun pdf_documents_loop :: "ustring \<Rightarrow> nat \<Rightarrow> ustring list \<Rightarrow> document list \<Rightarrow> document list" where
  "pdf_documents_loop pdf_path i [] documents = documents"
| "pdf_documents_loop pdf_path i (paragraph # rest) documents =
     (if strip paragraph \<noteq> [] then
        pdf_documents_loop pdf_path (Suc i) rest
          (documents @ [\<lparr>doc_text = paragraph,
                         doc_metadata = [(key_source, MStr pdf_path),
                                         (key_paragraph_id, MInt (int i)),
                                         (key_source_type, MStr str_pdf)]\<rparr>])
      else pdf_documents_loop pdf_path (Suc i) rest documents)"

definition process_documents_from_pdf ::
  "ingest_env \<Rightarrow> ustring \<Rightarrow> int list option \<Rightarrow> console_line list \<times> document list" where
  "process_documents_from_pdf env pdf_path page_numbers =
     (let (out, paragraphs) = extract_text_from_pdf env pdf_path page_numbers;
          documents = pdf_documents_loop pdf_path 0 paragraphs []
      in (out @ [DocumentsBuilt (length documents)], documents))"

fun text_documents_loop :: "ustring \<Rightarrow> nat \<Rightarrow> ustring list \<Rightarrow> document list \<Rightarrow> document list" where
  "text_documents_loop source i [] documents = documents"
| "text_documents_loop source i (t # rest) documents =
     (if strip t \<noteq> [] then
        text_documents_loop source (Suc i) rest
          (documents @ [\<lparr>doc_text = t,
                         doc_metadata = [(key_source, MStr source),
                                         (key_text_id, MInt (int i)),
                                         (key_source_type, MStr str_text)]\<rparr>])
      else text_documents_loop source (Suc i) rest documents)"

definition process_documents_from_text ::
  "ustring list \<Rightarrow> ustring \<Rightarrow> console_line list \<times> document list" where
  "process_documents_from_text texts source =
     (let documents = text_documents_loop source 0 texts []
      in ([DocumentsBuilt (length documents)], documents))"

text \<open>Lines 203-210 of \<open>ingest_documents\<close>: one \<open>TextNode\<close> per document, with the
  document's text and metadata; these nodes are what is embedded and stored.\<close>

fun ingest_documents_nodes :: "document list \<Rightarrow> text_node list \<Rightarrow> text_node list" where
  "ingest_documents_nodes [] nodes = nodes"
| "ingest_documents_nodes (doc # docs) nodes =
     ingest_documents_nodes docs
       (nodes @ [\<lparr>node_text = doc_text doc, node_metadata = doc_metadata doc\<rparr>])"

text \<open>The two ingest paths of \<open>main\<close>: \<open>--pdf\<close> (lines 310-315) and \<open>--text\<close>
  (lines 324-329); \<open>ingest_documents\<close> is called only on a non-empty document list.\<close>

definition indexed_nodes_from_pdf ::
  "ingest_env \<Rightarrow> ustring \<Rightarrow> int list option \<Rightarrow> text_node list" where
  "indexed_nodes_from_pdf env pdf_path page_numbers =
     (let documents = snd (process_documents_from_pdf env pdf_path page_numbers)
      in if documents \<noteq> [] then ingest_documents_nodes documents [] else [])"

definition indexed_nodes_from_text :: "ustring list \<Rightarrow> ustring \<Rightarrow> text_node list" where
  "indexed_nodes_from_text texts source =
     (let documents = snd (process_documents_from_text texts source)
      in if documents \<noteq> [] then ingest_documents_nodes documents [] else [])"


section \<open>main.py: RAGSystem.extract\_text\_from\_pdf\<close>







section \<open>The query side: data\<close>

type_synonym metadata = "(ustring \<times> meta_value) list"

text \<open>
  A retrieved node as the query code reads it: its text, its score and its metadata.
  \<open>None\<close> stands for an object without the attribute, which the code tests with
  \<open>hasattr\<close>.  Scores are floating-point numbers in the source; only their order matters
  here, and they are taken as reals.
\<close>

record node =
  n_text :: ustring
  n_score :: "real option"
  n_metadata :: "metadata option"

text \<open>One entry of the reranker's answer (\<open>result.document\<close>, \<open>result.score\<close>).\<close>

record rank_result =
  rr_document :: ustring
  rr_score :: real

text \<open>A response of a query engine, or the \<open>MockResponse\<close> of the rerank path:
  \<open>str(response)\<close> and the \<open>source_nodes\<close> attribute, if there is one.\<close>

record response =
  resp_text :: ustring
  source_nodes :: "node list option"

record source_info =
  src_text :: ustring
  src_score :: real
  src_metadata :: metadata

record query_result =
  question :: ustring
  answer :: ustring
  sources :: "source_info list"
  processing_time :: real

text \<open>What goes to the log file: the source list that \<open>query\<close> writes with \<open>log_info\<close>
  (lines 218-231 of local\_query.py) and the record that \<open>log_query_result\<close> of
  logging\_config.py builds.\<close>

record source_log_entry =
  sl_rank :: nat
  sl_score :: real
  sl_source :: "meta_value option"
  sl_paragraph_id :: "meta_value option"
  sl_content :: ustring

record logged_source =
  ls_rank :: nat
  ls_similarity_score :: real
  ls_metadata :: metadata
  ls_full_content :: ustring

datatype log_message =
    SourcesLog "source_log_entry list"
  | QueryResultLog ustring ustring real "logged_source list"

text \<open>
  The collaborators of the query side, each of which may raise and may change the world
  outside: the vector retriever built with a given \<open>similarity_top_k\<close>, the reranker, the
  language model, the query engine built with a given \<open>similarity_top_k\<close>, the logger's
  \<open>info\<close>, writing the batch results to a file, and the clock that gives the time spent.
\<close>

record 'w query_env =
  retrieve :: "int \<Rightarrow> ustring \<Rightarrow> 'w \<Rightarrow> (exn + node list) \<times> 'w"
  rank :: "ustring \<Rightarrow> ustring list \<Rightarrow> int \<Rightarrow> 'w \<Rightarrow> (exn + rank_result list) \<times> 'w"
  complete :: "ustring \<Rightarrow> 'w \<Rightarrow> (exn + ustring) \<times> 'w"
  engine_query :: "int \<Rightarrow> ustring \<Rightarrow> 'w \<Rightarrow> (exn + response) \<times> 'w"
  logger_info :: "log_message \<Rightarrow> 'w \<Rightarrow> (exn + unit) \<times> 'w"
  json_dump :: "ustring \<Rightarrow> query_result list \<Rightarrow> 'w \<Rightarrow> (exn + unit) \<times> 'w"
  elapsed :: "'w \<Rightarrow> real"

text \<open>The calls made to the collaborators are recorded, in order, beside the world.\<close>

datatype call =
    CallRetrieve int ustring
  | CallRank ustring "ustring list" int
  | CallComplete ustring
  | CallEngine int ustring
  | CallLog log_message
  | CallDump ustring

type_synonym 'w state = "'w \<times> call list"

type_synonym ('w, 'a) action = "'w state \<Rightarrow> (exn + 'a) \<times> 'w state"

definition succeed :: "'a \<Rightarrow> ('w, 'a) action" where
  "succeed x s = (Inr x, s)"

text \<open>Sequencing: an exception of the first action skips the rest.\<close>

definition and_then :: "('w, 'a) action \<Rightarrow> ('a \<Rightarrow> ('w, 'b) action) \<Rightarrow> ('w, 'b) action" where
  "and_then m f s = (case m s of (Inl e, s') \<Rightarrow> (Inl e, s') | (Inr x, s') \<Rightarrow> f x s')"

definition call_retrieve :: "'w query_env \<Rightarrow> int \<Rightarrow> ustring \<Rightarrow> ('w, node list) action" where
  "call_retrieve env k q s =
     (case retrieve env k q (fst s) of (r, w') \<Rightarrow> (r, (w', snd s @ [CallRetrieve k q])))"

definition call_rank ::
  "'w query_env \<Rightarrow> ustring \<Rightarrow> ustring list \<Rightarrow> int \<Rightarrow> ('w, rank_result list) action" where
  "call_rank env q documents k s =
     (case rank env q documents k (fst s) of
        (r, w') \<Rightarrow> (r, (w', snd s @ [CallRank q documents k])))"

definition call_complete :: "'w query_env \<Rightarrow> ustring \<Rightarrow> ('w, ustring) action" where
  "call_complete env prompt s =
     (case complete env prompt (fst s) of (r, w') \<Rightarrow> (r, (w', snd s @ [CallComplete prompt])))"

definition call_engine :: "'w query_env \<Rightarrow> int \<Rightarrow> ustring \<Rightarrow> ('w, response) action" where
  "call_engine env k q s =
     (case engine_query env k q (fst s) of (r, w') \<Rightarrow> (r, (w', snd s @ [CallEngine k q])))"

definition call_log :: "'w query_env \<Rightarrow> log_message \<Rightarrow> ('w, unit) action" where
  "call_log env msg s =
     (case logger_info env msg (fst s) of (r, w') \<Rightarrow> (r, (w', snd s @ [CallLog msg])))"

definition call_dump :: "'w query_env \<Rightarrow> ustring \<Rightarrow> query_result list \<Rightarrow> ('w, unit) action" where
  "call_dump env path results s =
     (case json_dump env path results (fst s) of (r, w') \<Rightarrow> (r, (w', snd s @ [CallDump path])))"

definition read_clock :: "'w query_env \<Rightarrow> ('w, real) action" where
  "read_clock env s = (Inr (elapsed env (fst s)), s)"


section \<open>shared\_config.py and the prompt template\<close>

definition SIMILARITY_TOP_K :: int where
  "SIMILARITY_TOP_K = 5"

text \<open>\<open>top_k or Config.SIMILARITY_TOP_K\<close>: \<open>None\<close> and \<open>0\<close> are false in Python.\<close>

definition top_k_or_default :: "int option \<Rightarrow> int" where
  "top_k_or_default top_k =
     (case top_k of None \<Rightarrow> SIMILARITY_TOP_K | Some k \<Rightarrow> if k = 0 then SIMILARITY_TOP_K else k)"

text \<open>The three parts of \<open>custom_template\<close> (local\_query.py lines 42-56) around
  \<open>{context_str}\<close> and \<open>{query_str}\<close>, as code points.\<close>

definition template_head :: ustring where
  "template_head =
     [20320, 26159, 19968, 20010, 38382, 31572, 26426, 22120, 20154, 12290, 10, 32, 32, 32, 32,
      32, 32, 32, 32, 32, 32, 32, 32, 32, 32, 32, 32, 20320, 30340, 20219, 21153, 26159, 26681,
      25454, 19979, 36848, 32473, 23450, 30340, 24050, 30693, 20449, 24687, 22238, 31572,
      29992, 25143, 38382, 39064, 12290, 10, 10, 32, 32, 32, 32, 32, 32, 32, 32, 32, 32, 32,
      32, 32, 32, 32, 32, 24050, 30693, 20449, 24687, 58, 10, 32, 32, 32, 32, 32, 32, 32, 32,
      32, 32, 32, 32, 32, 32, 32, 32]"

definition template_middle :: ustring where
  "template_middle =
     [10, 10, 32, 32, 32, 32, 32, 32, 32, 32, 32, 32, 32, 32, 32, 32, 32, 32, 29992, 25143,
      38382, 65306, 10, 32, 32, 32, 32, 32, 32, 32, 32, 32, 32, 32, 32, 32, 32, 32, 32]"

definition template_tail :: ustring where
  "template_tail =
     [10, 10, 32, 32, 32, 32, 32, 32, 32, 32, 32, 32, 32, 32, 32, 32, 32, 32, 22914, 26524,
      24050, 30693, 20449, 24687, 19981, 21253, 21547, 29992, 25143, 38382, 39064, 30340,
      31572, 26696, 65292, 25110, 32773, 24050, 30693, 20449, 24687, 19981, 36275, 20197,
      22238, 31572, 29992, 25143, 30340, 38382, 39064, 65292, 35831, 30452, 25509, 22238,
      22797, 34, 25105, 26080, 27861, 22238, 31572, 24744, 30340, 38382, 39064, 34, 12290, 10,
      32, 32, 32, 32, 32, 32, 32, 32, 32, 32, 32, 32, 32, 32, 32, 32, 35831, 19981, 35201,
      36755, 20986, 24050, 30693, 20449, 24687, 20013, 19981, 21253, 21547, 30340, 20449,
      24687, 25110, 31572, 26696, 12290, 10, 32, 32, 32, 32, 32, 32, 32, 32, 32, 32, 32, 32,
      32, 32, 32, 32, 35831, 29992, 20013, 25991, 22238, 31572, 29992, 25143, 38382, 39064,
      12290, 10, 32, 32, 32, 32, 32, 32, 32, 32, 32, 32, 32, 32, 32, 32, 32, 32]"

definition format_prompt :: "ustring \<Rightarrow> ustring \<Rightarrow> ustring" where
  "format_prompt context_str query_str =
     template_head @ context_str @ template_middle @ query_str @ template_tail"

text \<open>The sentence the template tells the model to answer with when the known
  information does not hold the answer, and the sentence that forbids any information
  that is not in the known information.\<close>

definition fallback_sentence :: ustring where
  "fallback_sentence =
     [25105, 26080, 27861, 22238, 31572, 24744, 30340, 38382, 39064]"

definition grounding_sentence :: ustring where
  "grounding_sentence =
     [35831, 19981, 35201, 36755, 20986, 24050, 30693, 20449, 24687, 20013, 19981, 21253,
      21547, 30340, 20449, 24687, 25110, 31572, 26696, 12290]"

text \<open>\<open>"\<dots>: "\<close> prefixes of the failure messages.\<close>

definition query_failed_prefix :: ustring where
  "query_failed_prefix = [26597, 35426, 22833, 25943, 58, 32]"

definition service_query_failed_prefix :: ustring where
  "service_query_failed_prefix = [26597, 35426, 34389, 29702, 22833, 25943, 58, 32]"

definition service_docs_failed_prefix :: ustring where
  "service_docs_failed_prefix = [25991, 27284, 27298, 32034, 22833, 25943, 58, 32]"


section \<open>local\_query.py: LocalQuerySystem\<close>

text \<open>
  Lines 182-189.  The retrieved nodes are objects that the loop changes in place
  (\<open>node.score = result.score\<close>) and appends to \<open>reranked_nodes\<close> by reference, so one
  node can be appended twice and then shows the score written last.  The node list is
  the store, \<open>reranked_nodes\<close> is a list of positions in it, and the nodes are read from
  the store when the loop has ended.  The inner loop finds the first node whose text
  equals the document.
\<close>

fun match_node :: "node list \<Rightarrow> ustring \<Rightarrow> nat \<Rightarrow> nat option" where
  "match_node [] d i = None"
| "match_node (n # ns) d i = (if n_text n = d then Some i else match_node ns d (Suc i))"

fun rerank_loop :: "rank_result list \<Rightarrow> node list \<Rightarrow> nat list \<Rightarrow> node list \<times> nat list" where
  "rerank_loop [] nodes refs = (nodes, refs)"
| "rerank_loop (r # rs) nodes refs =
     (case match_node nodes (rr_document r) 0 of
        None \<Rightarrow> rerank_loop rs nodes refs
      | Some i \<Rightarrow>
          rerank_loop rs (nodes[i := (nodes ! i)\<lparr>n_score := Some (rr_score r)\<rparr>]) (refs @ [i]))"

definition reranked_refs :: "node list \<Rightarrow> rank_result list \<Rightarrow> nat list" where
  "reranked_refs nodes rerank_results = snd (rerank_loop rerank_results nodes [])"

definition reranked_nodes :: "node list \<Rightarrow> rank_result list \<Rightarrow> node list" where
  "reranked_nodes nodes rerank_results =
     (case rerank_loop rerank_results nodes [] of (store, refs) \<Rightarrow> map (\<lambda>i. store ! i) refs)"

text \<open>Lines 136-191: the rerank path up to the \<open>MockResponse\<close>.\<close>

definition rerank_response :: "'w query_env \<Rightarrow> ustring \<Rightarrow> int option \<Rightarrow> ('w, response) action" where
  "rerank_response env q top_k =
     and_then (call_retrieve env (top_k_or_default top_k * 2) q) (\<lambda>nodes.
     and_then (call_rank env q (map n_text nodes) (top_k_or_default top_k)) (\<lambda>rerank_results.
     and_then (call_complete env
                 (format_prompt (join [NEWLINE, NEWLINE] (map rr_document rerank_results)) q))
       (\<lambda>response_text.
     succeed \<lparr>resp_text = response_text,
              source_nodes = Some (reranked_nodes nodes rerank_results)\<rparr>)))"

text \<open>Lines 195-204: without reranking, a query engine with \<open>top_k\<close> when that is given,
  not zero and not the default, else the engine built with the default.\<close>

definition engine_response :: "'w query_env \<Rightarrow> ustring \<Rightarrow> int option \<Rightarrow> ('w, response) action" where
  "engine_response env q top_k =
     (case top_k of
        None \<Rightarrow> call_engine env SIMILARITY_TOP_K q
      | Some k \<Rightarrow>
          if k \<noteq> 0 \<and> k \<noteq> SIMILARITY_TOP_K then call_engine env k q
          else call_engine env SIMILARITY_TOP_K q)"

text \<open>Lines 220-238: one source per node, with the full text, and its entry in the
  source list that is logged.\<close>

definition score_or_zero :: "node \<Rightarrow> real" where
  "score_or_zero n = (case n_score n of None \<Rightarrow> 0 | Some x \<Rightarrow> x)"

definition metadata_or_empty :: "node \<Rightarrow> metadata" where
  "metadata_or_empty n = (case n_metadata n of None \<Rightarrow> [] | Some m \<Rightarrow> m)"

definition source_info_of :: "node \<Rightarrow> source_info" where
  "source_info_of n =
     \<lparr>src_text = n_text n, src_score = score_or_zero n, src_metadata = metadata_or_empty n\<rparr>"

definition source_log_entry_of :: "nat \<Rightarrow> node \<Rightarrow> source_log_entry" where
  "source_log_entry_of i n =
     \<lparr>sl_rank = i, sl_score = score_or_zero n,
      sl_source = map_of (metadata_or_empty n) key_source,
      sl_paragraph_id = map_of (metadata_or_empty n) key_paragraph_id,
      sl_content = n_text n\<rparr>"

fun sources_loop ::
  "nat \<Rightarrow> node list \<Rightarrow> source_log_entry list \<Rightarrow> source_info list \<Rightarrow>
     source_log_entry list \<times> source_info list" where
  "sources_loop i [] sources_log srcs = (sources_log, srcs)"
| "sources_loop i (n # ns) sources_log srcs =
     sources_loop (Suc i) ns (sources_log @ [source_log_entry_of i n])
       (srcs @ [source_info_of n])"

text \<open>logging\_config.py, \<open>log_query_result\<close>: the record that is written.\<close>

fun logged_sources_loop :: "nat \<Rightarrow> source_info list \<Rightarrow> logged_source list \<Rightarrow> logged_source list" where
  "logged_sources_loop i [] acc = acc"
| "logged_sources_loop i (src # rest) acc =
     logged_sources_loop (Suc i) rest
       (acc @ [\<lparr>ls_rank = i, ls_similarity_score = src_score src,
                 ls_metadata = src_metadata src, ls_full_content = src_text src\<rparr>])"

definition log_query_result :: "query_result \<Rightarrow> log_message" where
  "log_query_result result =
     QueryResultLog (question result) (answer result) (processing_time result)
       (logged_sources_loop 1 (sources result) [])"

text \<open>Lines 133-253: the body of the \<open>try\<close> of \<open>query\<close>.\<close>

definition query_body ::
  "'w query_env \<Rightarrow> ustring \<Rightarrow> int option \<Rightarrow> bool \<Rightarrow> bool \<Rightarrow> ('w, query_result) action" where
  "query_body env q top_k show_sources use_rerank =
     and_then (if use_rerank then rerank_response env q top_k else engine_response env q top_k)
       (\<lambda>response.
     and_then (read_clock env) (\<lambda>time_spent.
     and_then
       (if show_sources then
          (case source_nodes response of
             None \<Rightarrow> succeed []
           | Some nodes \<Rightarrow>
               (case sources_loop 1 nodes [] [] of
                  (sources_log, srcs) \<Rightarrow>
                    and_then (call_log env (SourcesLog sources_log)) (\<lambda>u. succeed srcs)))
        else succeed [])
       (\<lambda>srcs.
     and_then
       (call_log env
          (log_query_result
             \<lparr>question = q, answer = resp_text response, sources = srcs,
              processing_time = time_spent\<rparr>))
       (\<lambda>u. succeed \<lparr>question = q, answer = resp_text response, sources = srcs,
                      processing_time = time_spent\<rparr>))))"

text \<open>Lines 255-262: what the \<open>except\<close> clause returns.\<close>

definition failure_result :: "ustring \<Rightarrow> exn \<Rightarrow> query_result" where
  "failure_result q e =
     \<lparr>question = q, answer = query_failed_prefix @ message e, sources = [],
      processing_time = 0\<rparr>"

definition query ::
  "'w query_env \<Rightarrow> ustring \<Rightarrow> int option \<Rightarrow> bool \<Rightarrow> bool \<Rightarrow> 'w state \<Rightarrow>
     query_result \<times> 'w state" where
  "query env q top_k show_sources use_rerank s =
     (case query_body env q top_k show_sources use_rerank s of
        (Inl e, s') \<Rightarrow> (failure_result q e, s')
      | (Inr result, s') \<Rightarrow> (result, s'))"

text \<open>Lines 275-320: \<open>LocalQuerySystem.get_relevant_documents\<close>.\<close>

fun documents_loop :: "node list \<Rightarrow> source_info list \<Rightarrow> source_info list" where
  "documents_loop [] documents = documents"
| "documents_loop (n # ns) documents = documents_loop ns (documents @ [source_info_of n])"

definition retrieve_nodes :: "'w query_env \<Rightarrow> ustring \<Rightarrow> int option \<Rightarrow> ('w, node list) action" where
  "retrieve_nodes env q top_k =
     (case top_k of
        None \<Rightarrow> call_retrieve env SIMILARITY_TOP_K q
      | Some k \<Rightarrow>
          if k \<noteq> 0 \<and> k \<noteq> SIMILARITY_TOP_K then call_retrieve env k q
          else call_retrieve env SIMILARITY_TOP_K q)"

definition get_relevant_documents ::
  "'w query_env \<Rightarrow> ustring \<Rightarrow> int option \<Rightarrow> 'w state \<Rightarrow> source_info list \<times> 'w state" where
  "get_relevant_documents env q top_k s =
     (case retrieve_nodes env q top_k s of
        (Inl e, s') \<Rightarrow> ([], s')
      | (Inr nodes, s') \<Rightarrow> (documents_loop nodes [], s'))"

text \<open>Lines 379-398: \<open>batch_query\<close> calls \<open>query(question, show_sources=False)\<close> for each
  question in turn and then, when an output file is named, writes the results; a failure
  of the writing is printed and the results are returned all the same.\<close>

fun batch_loop ::
  "'w query_env \<Rightarrow> ustring list \<Rightarrow> query_result list \<Rightarrow> 'w state \<Rightarrow>
     query_result list \<times> 'w state" where
  "batch_loop env [] results s = (results, s)"
| "batch_loop env (q # qs) results s =
     (case query env q None False False s of
        (result, s') \<Rightarrow> batch_loop env qs (results @ [result]) s')"

definition batch_query ::
  "'w query_env \<Rightarrow> ustring list \<Rightarrow> ustring option \<Rightarrow> 'w state \<Rightarrow>
     query_result list \<times> 'w state" where
  "batch_query env questions output_file s =
     (case batch_loop env questions [] s of
        (results, s') \<Rightarrow>
          (case output_file of
             None \<Rightarrow> (results, s')
           | Some path \<Rightarrow>
               if path = [] then (results, s')
               else (results, snd (call_dump env path results s'))))"


section \<open>query\_service.py: QueryService\<close>

datatype http_exception = HTTPException (status_code: int) (detail: ustring)

text \<open>Line 151: \<open>node.text[:200] + "..." if len(node.text) > 200 else node.text\<close>.\<close>

definition truncate_text :: "ustring \<Rightarrow> ustring" where
  "truncate_text t = (if length t > 200 then take 200 t @ [46, 46, 46] else t)"

definition service_source_info_of :: "node \<Rightarrow> source_info" where
  "service_source_info_of n =
     \<lparr>src_text = truncate_text (n_text n), src_score = score_or_zero n,
      src_metadata = metadata_or_empty n\<rparr>"

fun service_sources_loop :: "node list \<Rightarrow> source_info list \<Rightarrow> source_info list" where
  "service_sources_loop [] srcs = srcs"
| "service_sources_loop (n # ns) srcs = service_sources_loop ns (srcs @ [service_source_info_of n])"

text \<open>Lines 131-167: \<open>QueryService.query\<close>; an exception becomes an \<open>HTTPException\<close>.\<close>

definition service_query_body ::
  "'w query_env \<Rightarrow> ustring \<Rightarrow> int option \<Rightarrow> ('w, query_result) action" where
  "service_query_body env q top_k =
     and_then (engine_response env q top_k) (\<lambda>response.
     and_then (read_clock env) (\<lambda>time_spent.
     succeed \<lparr>question = q, answer = resp_text response,
              sources = (case source_nodes response of
                           None \<Rightarrow> []
                         | Some nodes \<Rightarrow> service_sources_loop nodes []),
              processing_time = time_spent\<rparr>))"

definition service_query ::
  "'w query_env \<Rightarrow> ustring \<Rightarrow> int option \<Rightarrow> 'w state \<Rightarrow>
     (http_exception + query_result) \<times> 'w state" where
  "service_query env q top_k s =
     (case service_query_body env q top_k s of
        (Inl e, s') \<Rightarrow> (Inl (HTTPException 500 (service_query_failed_prefix @ message e)), s')
      | (Inr result, s') \<Rightarrow> (Inr result, s'))"

text \<open>Lines 180-211: \<open>QueryService.get_relevant_documents\<close>.\<close>

record relevant_documents =
  rd_question :: ustring
  rd_documents :: "source_info list"
  rd_total_count :: nat

definition service_get_relevant_documents ::
  "'w query_env \<Rightarrow> ustring \<Rightarrow> int option \<Rightarrow> 'w state \<Rightarrow>
     (http_exception + relevant_documents) \<times> 'w state" where
  "service_get_relevant_documents env q top_k s =
     (case retrieve_nodes env q top_k s of
        (Inl e, s') \<Rightarrow> (Inl (HTTPException 500 (service_docs_failed_prefix @ message e)), s')
      | (Inr nodes, s') \<Rightarrow>
          (Inr \<lparr>rd_question = q, rd_documents = documents_loop nodes [],
                rd_total_count = length (documents_loop nodes [])\<rparr>, s'))"


section \<open>Vocabulary of the query properties\<close>

text \<open>A logger that never raises.\<close>

definition logger_ok :: "'w query_env \<Rightarrow> bool" where
  "logger_ok env \<longleftrightarrow> (\<forall>msg w. fst (logger_info env msg w) = Inr ())"


text \<open>The position in the node list that the inner loop finds for a result (its first
  node with the result's text), and the results whose text occurs among the nodes.\<close>

definition matched_index :: "node list \<Rightarrow> rank_result \<Rightarrow> nat" where
  "matched_index nodes r = (case match_node nodes (rr_document r) 0 of None \<Rightarrow> 0 | Some i \<Rightarrow> i)"

definition matched_results :: "node list \<Rightarrow> rank_result list \<Rightarrow> rank_result list" where
  "matched_results nodes rs = filter (\<lambda>r. rr_document r \<in> set (map n_text nodes)) rs"

text \<open>A reranker's answer in which results with the same document have the same score,
  as when the score is the relevance model's value for the query and that text.\<close>

definition same_text_same_score :: "rank_result list \<Rightarrow> bool" where
  "same_text_same_score rs \<longleftrightarrow>
     (\<forall>r1 \<in> set rs. \<forall>r2 \<in> set rs. rr_document r1 = rr_document r2 \<longrightarrow> rr_score r1 = rr_score r2)"


text \<open>
  Modelled from the spec: the reranker is a library outside this repository, and
  sections 4.5 and 6 give its contract.  An answer \<open>rs\<close> to \<open>rank(query, documents, k)\<close>
  holds at most \<open>min(k, len(documents))\<close> results, in descending order of score.
\<close>

definition rank_answer_ok :: "rank_result list \<Rightarrow> ustring list \<Rightarrow> int \<Rightarrow> bool" where
  "rank_answer_ok rs documents k \<longleftrightarrow>
     int (length rs) \<le> min k (int (length documents)) \<and>
     sorted_wrt (\<lambda>a b. a \<ge> b) (map rr_score rs)"

text \<open>An action that only adds to the recorded calls.\<close>

definition appends_calls :: "('w, 'a) action \<Rightarrow> bool" where
  "appends_calls m \<longleftrightarrow> (\<forall>s. \<exists>cs. snd (snd (m s)) = snd s @ cs)"


section \<open>Vocabulary of the ingestion properties\<close>

text \<open>The pages the filter lets through: all of them without a filter, otherwise those
  whose zero-based index is in the list.\<close>

definition page_selected :: "int list option \<Rightarrow> nat \<Rightarrow> bool" where
  "page_selected page_numbers i = (case page_numbers of None \<Rightarrow> True | Some pn \<Rightarrow> int i \<in> set pn)"

definition selected_pages :: "page_layout list \<Rightarrow> int list option \<Rightarrow> page_layout list" where
  "selected_pages pages page_numbers =
     map snd (filter (\<lambda>(i, p). page_selected page_numbers i) (enumerate 0 pages))"

text \<open>What one element adds to \<open>full_text\<close> in \<open>DataIngestion\<close>, and whether an element
  carries text that is not whitespace only.\<close>

fun appended_text :: "element \<Rightarrow> ustring" where
  "appended_text (LTTextContainer t) = dehyphenate t"
| "appended_text LTOther = []"

fun has_text :: "element \<Rightarrow> bool" where
  "has_text (LTTextContainer t) = (strip t \<noteq> [])"
| "has_text LTOther = False"


section \<open>Concrete inputs for the examples\<close>

text \<open>A one-page PDF whose text elements are \<open>"a-\n"\<close>, a figure, and \<open>"b"\<close>; the
  splitter returns the whole text and a blank chunk.\<close>

definition demo_ingest_env :: ingest_env where
  "demo_ingest_env =
     \<lparr>extract_pages = (\<lambda>path. Inr [[LTTextContainer [97, 45, 10], LTOther, LTTextContainer [98]]]),
      get_nodes_from_documents = (\<lambda>t. Inr [t, [32, 10]])\<rparr>"

text \<open>A two-page PDF whose first page holds only a blank text element and a figure.\<close>

definition blank_env :: ingest_env where
  "blank_env =
     \<lparr>extract_pages = (\<lambda>path. Inr [[LTTextContainer [32, 10], LTOther], [LTTextContainer [97]]]),
      get_nodes_from_documents = (\<lambda>t. Inr [t])\<rparr>"


text \<open>Collaborators with fixed answers: the retriever and the query engine return the
  given nodes, the reranker and the language model the given results; nothing is kept in
  the world.  Two nodes, one with a text of 201 characters.\<close>

definition canned_env ::
  "node list \<Rightarrow> (exn + rank_result list) \<Rightarrow> (exn + ustring) \<Rightarrow> unit query_env" where
  "canned_env nodes ranked completion =
     \<lparr>retrieve = (\<lambda>k q w. (Inr nodes, w)),
      rank = (\<lambda>q documents k w. (ranked, w)),
      complete = (\<lambda>prompt w. (completion, w)),
      engine_query = (\<lambda>k q w. (Inr \<lparr>resp_text = [111, 107], source_nodes = Some nodes\<rparr>, w)),
      logger_info = (\<lambda>msg w. (Inr (), w)),
      json_dump = (\<lambda>path results w. (Inr (), w)),
      elapsed = (\<lambda>w. 1)\<rparr>"

definition long_node :: node where
  "long_node = \<lparr>n_text = replicate 201 97, n_score = Some 0.5, n_metadata = None\<rparr>"

definition short_node :: node where
  "short_node = \<lparr>n_text = [98], n_score = None, n_metadata = Some [(key_source, MStr [100])]\<rparr>"

text \<open>An engine that fails on the question \<open>"b"\<close> and echoes any other question with
  an exclamation mark; writing the batch file fails.\<close>

definition batch_env :: "unit query_env" where
  "batch_env =
     \<lparr>retrieve = (\<lambda>k q w. (Inr [], w)),
      rank = (\<lambda>q documents k w. (Inr [], w)),
      complete = (\<lambda>prompt w. (Inr [], w)),
      engine_query = (\<lambda>k q w. if q = [98] then (Inl (Exception [110, 111]), w)
                               else (Inr \<lparr>resp_text = q @ [33], source_nodes = None\<rparr>, w)),
      logger_info = (\<lambda>msg w. (Inr (), w)),
      json_dump = (\<lambda>path results w. (Inl (Exception [120]), w)),
      elapsed = (\<lambda>w. 1)\<rparr>"


text \<open>Three retrieved nodes, two of them with the same text.\<close>

definition node_a :: node where
  "node_a = \<lparr>n_text = [97], n_score = Some 0.3, n_metadata = Some [(key_paragraph_id, MInt 0)]\<rparr>"
definition node_b :: node where
  "node_b = \<lparr>n_text = [98], n_score = Some 0.2, n_metadata = Some [(key_paragraph_id, MInt 1)]\<rparr>"
definition node_a' :: node where
  "node_a' = \<lparr>n_text = [97], n_score = Some 0.1, n_metadata = Some [(key_paragraph_id, MInt 2)]\<rparr>"


text \<open>A reranker's answer that names the text \<open>"a"\<close> twice, with the same score.\<close>

definition ranked_twice :: "rank_result list" where
  "ranked_twice = [\<lparr>rr_document = [97], rr_score = 0.9\<rparr>, \<lparr>rr_document = [97], rr_score = 0.9\<rparr>,
                   \<lparr>rr_document = [98], rr_score = 0.8\<rparr>]"


section \<open>Properties of the ingestion\<close>

lemmas str_defs = strip_def py_isspace_def endswith_def rstrip_chars_def strip_chars_def
  HYPHEN_def NEWLINE_def SPACE_def

lemma strip_empty_iff: "strip s = [] \<longleftrightarrow> (\<forall>c\<in>set s. py_isspace c)"
proof
  assume "strip s = []"
  then have a: "\<forall>x\<in>set (dropWhile py_isspace s). py_isspace x"
    by (simp add: strip_def)
  have "dropWhile py_isspace s = []"
  proof (rule ccontr)
    assume n: "dropWhile py_isspace s \<noteq> []"
    then have "\<not> py_isspace (hd (dropWhile py_isspace s))" by (rule hd_dropWhile)
    moreover have "hd (dropWhile py_isspace s) \<in> set (dropWhile py_isspace s)" using n by simp
    ultimately show False using a by blast
  qed
  then show "\<forall>c\<in>set s. py_isspace c" by simp
next
  assume "\<forall>c\<in>set s. py_isspace c"
  then show "strip s = []" by (auto simp: strip_def dest: set_dropWhileD)
qed

lemma pdf_documents_loop_texts:
  "map doc_text (pdf_documents_loop pdf_path i ps docs) =
     map doc_text docs @ filter (\<lambda>t. strip t \<noteq> []) ps"
  by (induction pdf_path i ps docs rule: pdf_documents_loop.induct) auto

lemma text_documents_loop_texts:
  "map doc_text (text_documents_loop src i ps docs) =
     map doc_text docs @ filter (\<lambda>t. strip t \<noteq> []) ps"
  by (induction src i ps docs rule: text_documents_loop.induct) auto

lemma ingest_documents_nodes_texts:
  "map node_text (ingest_documents_nodes docs nodes) = map node_text nodes @ map doc_text docs"
  by (induction docs nodes rule: ingest_documents_nodes.induct) auto

lemma ingest_documents_nodes_guard:
  "map node_text (if docs \<noteq> [] then ingest_documents_nodes docs [] else []) = map doc_text docs"
  by (simp add: ingest_documents_nodes_texts)

lemma process_pdf_texts:
  "map doc_text (snd (process_documents_from_pdf env pdf_path pn)) =
     filter (\<lambda>t. strip t \<noteq> []) (snd (extract_text_from_pdf env pdf_path pn))"
  by (cases "extract_text_from_pdf env pdf_path pn")
     (simp add: process_documents_from_pdf_def Let_def pdf_documents_loop_texts)

lemma process_text_texts:
  "map doc_text (snd (process_documents_from_text texts source)) =
     filter (\<lambda>t. strip t \<noteq> []) texts"
  by (simp add: process_documents_from_text_def Let_def text_documents_loop_texts)

lemma indexed_pdf_texts:
  "map node_text (indexed_nodes_from_pdf env pdf_path pn) =
     filter (\<lambda>t. strip t \<noteq> []) (snd (extract_text_from_pdf env pdf_path pn))"
  unfolding indexed_nodes_from_pdf_def Let_def ingest_documents_nodes_guard
  by (rule process_pdf_texts)

lemma indexed_text_texts:
  "map node_text (indexed_nodes_from_text texts source) = filter (\<lambda>t. strip t \<noteq> []) texts"
  unfolding indexed_nodes_from_text_def Let_def ingest_documents_nodes_guard
  by (rule process_text_texts)

text \<open>
  C7.  On both ingest paths (a PDF that is extracted and split, or a list of raw texts),
  every node handed to the index has a text that is non-empty and not whitespace-only:
  its stripped text is non-empty and it holds a non-whitespace character.  The texts of
  the documents built from a text list are exactly the input texts whose stripped text is
  non-empty, in order: a blank entry is dropped before a document is made of it.
\<close>

theorem indexed_chunks_never_blank:
  "(\<forall>n \<in> set (indexed_nodes_from_pdf env pdf_path page_numbers).
       node_text n \<noteq> [] \<and> strip (node_text n) \<noteq> [] \<and> (\<exists>c \<in> set (node_text n). \<not> py_isspace c))
   \<and> (\<forall>n \<in> set (indexed_nodes_from_text texts source).
       node_text n \<noteq> [] \<and> strip (node_text n) \<noteq> [] \<and> (\<exists>c \<in> set (node_text n). \<not> py_isspace c))
   \<and> map doc_text (snd (process_documents_from_pdf env pdf_path page_numbers)) =
       filter (\<lambda>t. strip t \<noteq> []) (snd (extract_text_from_pdf env pdf_path page_numbers))
   \<and> map doc_text (snd (process_documents_from_text texts source)) =
       filter (\<lambda>t. strip t \<noteq> []) texts"
proof -
  have key: "\<And>t. strip t \<noteq> [] \<Longrightarrow>
                 t \<noteq> [] \<and> strip t \<noteq> [] \<and> (\<exists>c \<in> set t. \<not> py_isspace c)"
    using strip_empty_iff by fastforce
  have a: "strip (node_text n) \<noteq> []"
    if "n \<in> set (indexed_nodes_from_pdf env pdf_path page_numbers)" for n
  proof -
    from that
    have "node_text n \<in> set (map node_text (indexed_nodes_from_pdf env pdf_path page_numbers))"
      by simp
    then show ?thesis unfolding indexed_pdf_texts by simp
  qed
  have b: "strip (node_text n) \<noteq> []"
    if "n \<in> set (indexed_nodes_from_text texts source)" for n
  proof -
    from that
    have "node_text n \<in> set (map node_text (indexed_nodes_from_text texts source))"
      by simp
    then show ?thesis unfolding indexed_text_texts by simp
  qed
  show ?thesis using a b key process_pdf_texts process_text_texts by blast
qed

theorem indexed_chunks_never_blank_witness:
  "\<lparr>node_text = [97, 98],
     node_metadata = [(key_source, MStr [100]), (key_paragraph_id, MInt 0),
                      (key_source_type, MStr str_pdf)]\<rparr>
     \<in> set (indexed_nodes_from_pdf demo_ingest_env [100] None)
   \<and> ([97, 98] :: ustring) \<noteq> [] \<and> strip [97, 98] \<noteq> []
   \<and> \<lparr>node_text = [32, 98],
       node_metadata = [(key_source, MStr [115]), (key_text_id, MInt 3),
                        (key_source_type, MStr str_text)]\<rparr>
     \<in> set (indexed_nodes_from_text [[97], [32], [], [32, 98]] [115])
   \<and> ([32, 98] :: ustring) \<noteq> [] \<and> strip [32, 98] \<noteq> []
   \<and> map doc_text (snd (process_documents_from_text [[97], [32], [], [32, 98]] [115])) =
       [[97], [32, 98]]"
proof -
  have e1: "indexed_nodes_from_pdf demo_ingest_env [100] None =
              [\<lparr>node_text = [97, 98],
                node_metadata = [(key_source, MStr [100]), (key_paragraph_id, MInt 0),
                                 (key_source_type, MStr str_pdf)]\<rparr>]"
    by (simp add: indexed_nodes_from_pdf_def process_documents_from_pdf_def
          extract_text_from_pdf_def demo_ingest_env_def dehyphenate_def Let_def str_defs)
  have e2: "indexed_nodes_from_text [[97], [32], [], [32, 98]] [115] =
              [\<lparr>node_text = [97],
                node_metadata = [(key_source, MStr [115]), (key_text_id, MInt 0),
                                 (key_source_type, MStr str_text)]\<rparr>,
               \<lparr>node_text = [32, 98],
                node_metadata = [(key_source, MStr [115]), (key_text_id, MInt 3),
                                 (key_source_type, MStr str_text)]\<rparr>]"
    by (simp add: indexed_nodes_from_text_def process_documents_from_text_def Let_def str_defs)
  have e3: "filter (\<lambda>t. strip t \<noteq> []) [[97], [32], [], [32, 98]] = [[97], [32, 98::nat]]"
    by (simp add: str_defs)
  show ?thesis
    using indexed_chunks_never_blank
            [of demo_ingest_env "[100]" None "[[97], [32], [], [32, 98]]" "[115]"]
    unfolding e1 e2 e3 by simp
qed

lemma element_loop_concat:
  "element_loop es full_text = full_text @ concat (map appended_text es)"
  by (induction es full_text rule: element_loop.induct) auto

lemma page_loop_concat:
  "page_loop i ps pn full_text =
     full_text @ concat (map (\<lambda>p. concat (map appended_text p))
       (map snd (filter (\<lambda>(i, p). page_selected pn i) (enumerate i ps))))"
proof (induction i ps pn full_text rule: page_loop.induct)
  case (1 i page_numbers full_text)
  then show ?case by simp
next
  case (2 i p ps page_numbers full_text)
  let ?rest = "concat (map (\<lambda>p. concat (map appended_text p))
       (map snd (filter (\<lambda>(i, p). page_selected page_numbers i) (enumerate (Suc i) ps))))"
  show ?case
  proof (cases page_numbers)
    case None
    have sel: "page_selected page_numbers i" using None by (simp add: page_selected_def)
    have "page_loop i (p # ps) page_numbers full_text =
            page_loop (Suc i) ps page_numbers (element_loop p full_text)"
      using None by simp
    also have "\<dots> = element_loop p full_text @ ?rest"
      by (rule 2(1) [OF None])
    finally show ?thesis using sel by (simp add: element_loop_concat)
  next
    case (Some pn)
    show ?thesis
    proof (cases "int i \<in> set pn")
      case True
      have sel: "page_selected page_numbers i" using Some True by (simp add: page_selected_def)
      have "page_loop i (p # ps) page_numbers full_text =
              page_loop (Suc i) ps page_numbers (element_loop p full_text)"
        using Some True by simp
      also have "\<dots> = element_loop p full_text @ ?rest"
        using 2(3) [OF Some] True by simp
      finally show ?thesis using sel by (simp add: element_loop_concat)
    next
      case False
      have sel: "\<not> page_selected page_numbers i" using Some False by (simp add: page_selected_def)
      have "page_loop i (p # ps) page_numbers full_text =
              page_loop (Suc i) ps page_numbers full_text"
        using Some False by simp
      also have "\<dots> = full_text @ ?rest"
        by (rule 2(2) [OF Some False])
      finally show ?thesis using sel by simp
    qed
  qed
qed

lemma page_loop_selected:
  "page_loop 0 pages pn [] = concat (map (\<lambda>p. concat (map appended_text p)) (selected_pages pages pn))"
  by (simp add: page_loop_concat selected_pages_def)

lemma endswith_set: "endswith s suf \<Longrightarrow> set suf \<subseteq> set s"
  unfolding endswith_def by (metis set_drop_subset)

lemma hyphen_not_space: "\<not> py_isspace HYPHEN"
  by (simp add: py_isspace_def HYPHEN_def)

lemma dehyphenate_blank: "strip t = [] \<Longrightarrow> dehyphenate t = t"
proof -
  assume b: "strip t = []"
  have "\<not> endswith t [HYPHEN, NEWLINE]"
  proof
    assume "endswith t [HYPHEN, NEWLINE]"
    then have "HYPHEN \<in> set t" using endswith_set by fastforce
    then show False using b hyphen_not_space strip_empty_iff by blast
  qed
  then show ?thesis by (simp add: dehyphenate_def)
qed

lemma appended_text_blank: "\<not> has_text e \<Longrightarrow> strip (appended_text e) = []"
  by (cases e) (simp_all add: dehyphenate_blank strip_def)

lemma strip_concat_blank: "\<forall>s \<in> set ss. strip s = [] \<Longrightarrow> strip (concat ss) = []"
  by (auto simp: strip_empty_iff)

text \<open>
  C8.  When \<open>extract_pages\<close> yields the pages and no element of any selected page carries
  text other than whitespace, \<open>extract_text_from_pdf\<close> returns the empty list after
  printing that no text was extracted; it does not raise, and the caller
  \<open>process_documents_from_pdf\<close> goes on with an empty document list.
\<close>

theorem empty_extraction_reported:
  assumes "extract_pages env pdf_path = Inr pages"
    and "\<forall>p \<in> set (selected_pages pages page_numbers). \<forall>e \<in> set p. \<not> has_text e"
  shows "extract_text_from_pdf env pdf_path page_numbers =
           ([ExtractingPdf pdf_path, NoTextExtracted], [])
         \<and> snd (process_documents_from_pdf env pdf_path page_numbers) = []"
proof -
  have "strip (concat (map appended_text p)) = []"
    if "p \<in> set (selected_pages pages page_numbers)" for p
  proof (rule strip_concat_blank)
    show "\<forall>s\<in>set (map appended_text p). strip s = []"
      using assms(2) that by (auto simp: appended_text_blank)
  qed
  then have "strip (page_loop 0 pages page_numbers []) = []"
    unfolding page_loop_selected by (intro strip_concat_blank) auto
  then have e: "extract_text_from_pdf env pdf_path page_numbers =
           ([ExtractingPdf pdf_path, NoTextExtracted], [])"
    using assms(1) by (simp add: extract_text_from_pdf_def)
  then show ?thesis by (simp add: process_documents_from_pdf_def)
qed

theorem empty_extraction_reported_witness:
  "extract_pages blank_env [100] = Inr [[LTTextContainer [32, 10], LTOther], [LTTextContainer [97]]]
   \<and> selected_pages [[LTTextContainer [32, 10], LTOther], [LTTextContainer [97]]] (Some [0]) =
       [[LTTextContainer [32, 10], LTOther]]
   \<and> extract_text_from_pdf blank_env [100] (Some [0]) = ([ExtractingPdf [100], NoTextExtracted], [])
   \<and> snd (process_documents_from_pdf blank_env [100] (Some [0])) = []"
proof -
  have a: "extract_pages blank_env [100] =
             Inr [[LTTextContainer [32, 10], LTOther], [LTTextContainer [97]]]"
    by (simp add: blank_env_def)
  have s: "selected_pages [[LTTextContainer [32, 10], LTOther], [LTTextContainer [97]]] (Some [0]) =
             [[LTTextContainer [32, 10], LTOther]]"
    by (simp add: selected_pages_def page_selected_def)
  have h: "\<forall>p \<in> set (selected_pages [[LTTextContainer [32, 10], LTOther], [LTTextContainer [97]]]
                         (Some [0])). \<forall>e \<in> set p. \<not> has_text e"
    unfolding s by (simp add: str_defs)
  show ?thesis using a s empty_extraction_reported [OF a h] by simp
qed












text \<open>\<open>rstrip('-\n')\<close> removes the whole trailing run of hyphens and line breaks, not
  only the final pair.\<close>

lemma dehyphenate_strips_whole_run: "dehyphenate [97, 45, 45, 10] = [97] \<and> dehyphenate [97, 10, 45, 10] = [97]"
  by (simp add: dehyphenate_def str_defs)

section \<open>Properties of the query side\<close>

lemmas query_defs = query_def query_body_def rerank_response_def engine_response_def and_then_def
  succeed_def read_clock_def call_retrieve_def call_rank_def call_complete_def call_engine_def
  call_log_def call_dump_def failure_result_def top_k_or_default_def SIMILARITY_TOP_K_def
  log_query_result_def

lemma sources_loop_eq:
  "sources_loop i ns sl srcs =
     (sl @ map (\<lambda>(j, n). source_log_entry_of j n) (enumerate i ns), srcs @ map source_info_of ns)"
  by (induction i ns sl srcs rule: sources_loop.induct) auto

lemma documents_loop_eq: "documents_loop ns acc = acc @ map source_info_of ns"
  by (induction ns acc rule: documents_loop.induct) auto

lemma service_sources_loop_eq:
  "service_sources_loop ns acc = acc @ map service_source_info_of ns"
  by (induction ns acc rule: service_sources_loop.induct) auto

lemma logged_sources_loop_eq:
  "map ls_full_content (logged_sources_loop i srcs acc) = map ls_full_content acc @ map src_text srcs"
  by (induction i srcs acc rule: logged_sources_loop.induct) auto

lemma call_log_ok:
  assumes "logger_ok env"
  shows "\<exists>w'. call_log env msg s = (Inr (), (w', snd s @ [CallLog msg]))"
proof -
  obtain r w' where l: "logger_info env msg (fst s) = (r, w')" by (cases "logger_info env msg (fst s)")
  then have "r = Inr ()" using assms unfolding logger_ok_def by (metis fst_conv)
  then show ?thesis using l by (simp add: call_log_def)
qed

lemma and_then_Inr: "m s = (Inr x, s') \<Longrightarrow> and_then m f s = f x s'"
  by (simp add: and_then_def)

lemma and_then_Inl: "m s = (Inl e, s') \<Longrightarrow> and_then m f s = (Inl e, s')"
  by (simp add: and_then_def)

lemma truncate_long: "length t > 200 \<Longrightarrow> truncate_text t = take 200 t @ [46, 46, 46] \<and> length (truncate_text t) = 203"
  by (simp add: truncate_text_def)

lemma truncate_short: "length t \<le> 200 \<Longrightarrow> truncate_text t = t"
  by (simp add: truncate_text_def)

lemma service_query_sources:
  assumes "engine_response env q top_k s = (Inr resp, s')" and "source_nodes resp = Some nodes"
  shows "\<exists>r. service_query env q top_k s = (Inr r, s') \<and>
           map src_text (sources r) = map (\<lambda>n. truncate_text (n_text n)) nodes"
  using assms
  by (simp add: service_query_def service_query_body_def and_then_Inr read_clock_def succeed_def
        service_sources_loop_eq service_source_info_of_def comp_def)

lemma relevant_documents_full:
  assumes "retrieve_nodes env q top_k s = (Inr nodes, s')"
  shows "(\<exists>r. service_get_relevant_documents env q top_k s = (Inr r, s') \<and>
            map src_text (rd_documents r) = map n_text nodes)
         \<and> map src_text (fst (get_relevant_documents env q top_k s)) = map n_text nodes"
  using assms
  by (simp add: service_get_relevant_documents_def get_relevant_documents_def documents_loop_eq
        source_info_of_def comp_def)

lemma query_after_response:
  assumes r: "(if use_rerank then rerank_response env q top_k else engine_response env q top_k) s
                = (Inr resp, s1)"
    and l: "logger_ok env"
  shows "\<exists>w2 logs. query env q top_k show_sources use_rerank s =
           (\<lparr>question = q, answer = resp_text resp,
             sources = (if show_sources then
                          (case source_nodes resp of None \<Rightarrow> [] | Some nodes \<Rightarrow> map source_info_of nodes)
                        else []),
             processing_time = elapsed env (fst s1)\<rparr>, (w2, snd s1 @ logs))
         \<and> logs =
           (if show_sources then
              (case source_nodes resp of None \<Rightarrow> []
               | Some nodes \<Rightarrow> [CallLog (SourcesLog (fst (sources_loop 1 nodes [] [])))])
            else []) @
           [CallLog (log_query_result
              \<lparr>question = q, answer = resp_text resp,
               sources = (if show_sources then
                          (case source_nodes resp of None \<Rightarrow> [] | Some nodes \<Rightarrow> map source_info_of nodes)
                        else []),
               processing_time = elapsed env (fst s1)\<rparr>)]"
proof -
  let ?srcs = "if show_sources then
                 (case source_nodes resp of None \<Rightarrow> [] | Some nodes \<Rightarrow> map source_info_of nodes)
               else []"
  let ?res = "\<lparr>question = q, answer = resp_text resp, sources = ?srcs,
               processing_time = elapsed env (fst s1)\<rparr>"
  let ?pre = "if show_sources then
              (case source_nodes resp of None \<Rightarrow> []
               | Some nodes \<Rightarrow> [CallLog (SourcesLog (fst (sources_loop 1 nodes [] [])))])
            else []"
  have step: "\<exists>w. (if show_sources then
          (case source_nodes resp of
             None \<Rightarrow> succeed []
           | Some nodes \<Rightarrow>
               (case sources_loop 1 nodes [] [] of
                  (sources_log, srcs) \<Rightarrow>
                    and_then (call_log env (SourcesLog sources_log)) (\<lambda>u. succeed srcs)))
        else succeed []) s1 = (Inr ?srcs, (w, snd s1 @ ?pre))"
  proof (cases "show_sources \<and> source_nodes resp \<noteq> None")
    case True
    then obtain nodes where n: "source_nodes resp = Some nodes" by auto
    obtain w where "call_log env (SourcesLog (fst (sources_loop 1 nodes [] []))) s1 =
        (Inr (), (w, snd s1 @ [CallLog (SourcesLog (fst (sources_loop 1 nodes [] [])))]))"
      using call_log_ok [OF l] by blast
    then show ?thesis using True n
      by (auto simp: sources_loop_eq and_then_def succeed_def)
  next
    case False
    then show ?thesis by (cases s1) (auto simp: succeed_def split: option.splits)
  qed
  then obtain w where w: "(if show_sources then
          (case source_nodes resp of
             None \<Rightarrow> succeed []
           | Some nodes \<Rightarrow>
               (case sources_loop 1 nodes [] [] of
                  (sources_log, srcs) \<Rightarrow>
                    and_then (call_log env (SourcesLog sources_log)) (\<lambda>u. succeed srcs)))
        else succeed []) s1 = (Inr ?srcs, (w, snd s1 @ ?pre))" by blast
  obtain w2 where w2: "call_log env (log_query_result ?res) (w, snd s1 @ ?pre) =
        (Inr (), (w2, snd (w, snd s1 @ ?pre) @ [CallLog (log_query_result ?res)]))"
    using call_log_ok [OF l] by blast
  have "query_body env q top_k show_sources use_rerank s =
          (Inr ?res, (w2, snd s1 @ ?pre @ [CallLog (log_query_result ?res)]))"
    using w2 by (simp add: query_body_def and_then_def r w read_clock_def succeed_def)
  then show ?thesis by (auto simp: query_def)
qed

lemma sources_loop_contents:
  "map sl_content (fst (sources_loop i ns sl srcs)) = map sl_content sl @ map n_text ns"
  by (induction i ns sl srcs rule: sources_loop.induct) (auto simp: source_log_entry_of_def)

text \<open>
  C10.  In the query service every returned source carries the node's text cut to its
  first 200 characters followed by three dots when the text is longer than 200
  characters (203 characters in all), and the whole text otherwise.  The documents-only
  paths of the service and of the local system return the whole text, and so do the
  sources of a local query and both entries it writes to the log.
\<close>

theorem service_sources_truncated:
  "(engine_response env q top_k s = (Inr resp, s') \<and> source_nodes resp = Some nodes \<longrightarrow>
      (\<exists>r. service_query env q top_k s = (Inr r, s') \<and>
            map src_text (sources r) = map (\<lambda>n. truncate_text (n_text n)) nodes)
      \<and> (logger_ok env \<longrightarrow>
           (\<exists>r w2 entries logged.
              query env q top_k True False s =
                (r, (w2, snd s' @ [CallLog (SourcesLog entries),
                                   CallLog (QueryResultLog q (answer r) (processing_time r) logged)]))
              \<and> map src_text (sources r) = map n_text nodes
              \<and> map sl_content entries = map n_text nodes
              \<and> map ls_full_content logged = map n_text nodes)))
   \<and> (length t > 200 \<longrightarrow>
        truncate_text t = take 200 t @ [46, 46, 46] \<and> length (truncate_text t) = 203)
   \<and> (length t \<le> 200 \<longrightarrow> truncate_text t = t)
   \<and> (retrieve_nodes env q top_k s = (Inr nodes, s') \<longrightarrow>
        (\<exists>r. service_get_relevant_documents env q top_k s = (Inr r, s') \<and>
              map src_text (rd_documents r) = map n_text nodes)
        \<and> map src_text (fst (get_relevant_documents env q top_k s)) = map n_text nodes)"
proof -
  have a: "\<exists>r w2 entries logged.
              query env q top_k True False s =
                (r, (w2, snd s' @ [CallLog (SourcesLog entries),
                                   CallLog (QueryResultLog q (answer r) (processing_time r) logged)]))
              \<and> map src_text (sources r) = map n_text nodes
              \<and> map sl_content entries = map n_text nodes
              \<and> map ls_full_content logged = map n_text nodes"
    if r: "engine_response env q top_k s = (Inr resp, s')" and n: "source_nodes resp = Some nodes"
      and l: "logger_ok env"
  proof -
    have r': "(if False then rerank_response env q top_k else engine_response env q top_k) s
                = (Inr resp, s')" using r by simp
    obtain w2 where
      "query env q top_k True False s =
         (\<lparr>question = q, answer = resp_text resp, sources = map source_info_of nodes,
           processing_time = elapsed env (fst s')\<rparr>,
          (w2, snd s' @ [CallLog (SourcesLog (fst (sources_loop 1 nodes [] []))),
             CallLog (log_query_result \<lparr>question = q, answer = resp_text resp,
               sources = map source_info_of nodes, processing_time = elapsed env (fst s')\<rparr>)]))"
      using query_after_response [OF r' l, of True] n by auto
    moreover have "map sl_content (fst (sources_loop 1 nodes [] [])) = map n_text nodes"
      by (simp add: sources_loop_contents)
    moreover have "map src_text (map source_info_of nodes) = map n_text nodes"
      by (simp add: source_info_of_def comp_def)
    ultimately show ?thesis
      by (simp add: log_query_result_def logged_sources_loop_eq)
  qed
  show ?thesis
    using a service_query_sources [of env q top_k s resp s' nodes]
      relevant_documents_full [of env q top_k s nodes s'] truncate_long [of t] truncate_short [of t]
    by blast
qed

theorem service_sources_truncated_witness:
  "map src_text (sources (projr (fst (service_query
       (canned_env [long_node, short_node] (Inr []) (Inr [])) [113] None ((), []))))) =
     [replicate 200 97 @ [46, 46, 46], [98]]
   \<and> map src_text (sources (fst (query
       (canned_env [long_node, short_node] (Inr []) (Inr [])) [113] None True False ((), [])))) =
     [replicate 201 97, [98]]
   \<and> map src_text (fst (get_relevant_documents
       (canned_env [long_node, short_node] (Inr []) (Inr [])) [113] None ((), []))) =
     [replicate 201 97, [98]]
   \<and> length (truncate_text (replicate 201 97)) = 203"
proof -
  let ?E = "canned_env [long_node, short_node] (Inr []) (Inr [])"
  let ?resp = "\<lparr>resp_text = [111, 107], source_nodes = Some [long_node, short_node]\<rparr>"
  have h1: "engine_response ?E [113] None ((), []) = (Inr ?resp, ((), [CallEngine 5 [113]]))"
    by (simp add: engine_response_def call_engine_def canned_env_def SIMILARITY_TOP_K_def)
  have h2: "source_nodes ?resp = Some [long_node, short_node]" by simp
  have h3: "logger_ok ?E" by (simp add: logger_ok_def canned_env_def)
  have h4: "retrieve_nodes ?E [113] None ((), []) =
              (Inr [long_node, short_node], ((), [CallRetrieve 5 [113]]))"
    by (simp add: retrieve_nodes_def call_retrieve_def canned_env_def SIMILARITY_TOP_K_def)
  have t: "map (\<lambda>n. truncate_text (n_text n)) [long_node, short_node] =
             [replicate 200 97 @ [46, 46, 46], [98]]"
    by (simp add: truncate_text_def long_node_def short_node_def)
  have u: "map n_text [long_node, short_node] = [replicate 201 97, [98]]"
    by (simp add: long_node_def short_node_def)
  have l: "200 < length (replicate 201 (97::nat))" by simp
  from service_sources_truncated [of ?E "[113]" None "((), [])" ?resp "((), [CallEngine 5 [113]])"
              "[long_node, short_node]" "replicate 201 97"] h1 h2 h3 l
  have a: "map src_text (sources (projr (fst (service_query ?E [113] None ((), []))))) =
             [replicate 200 97 @ [46, 46, 46], [98]]"
    and b: "map src_text (sources (fst (query ?E [113] None True False ((), [])))) =
             [replicate 201 97, [98]]"
    and d: "length (truncate_text (replicate 201 97)) = 203"
    unfolding t u by auto
  from service_sources_truncated [of ?E "[113]" None "((), [])" ?resp "((), [CallRetrieve 5 [113]])"
              "[long_node, short_node]" "[]"] h4
  have c: "map src_text (fst (get_relevant_documents ?E [113] None ((), []))) =
             [replicate 201 97, [98]]"
    unfolding u by blast
  show ?thesis using a b c d by blast
qed







text \<open>
  The code makes no check of its own on \<open>top_k\<close>: a negative value is handed to the
  retriever as it is.
\<close>

lemma negative_top_k_passed_on:
  "snd (snd (get_relevant_documents (canned_env [] (Inr []) (Inr [])) [113] (Some (- 3)) ((), []))) =
     [CallRetrieve (- 3) [113]]
   \<and> \<not> (0 < (- 3 :: int))"
  by (simp add: get_relevant_documents_def retrieve_nodes_def call_retrieve_def canned_env_def
        SIMILARITY_TOP_K_def)

lemma query_failure: "query_body env q top_k show_sources use_rerank s = (Inl e, s') \<Longrightarrow>
   query env q top_k show_sources use_rerank s = (failure_result q e, s')"
  by (simp add: query_def)

lemma response_failure:
  "(if use_rerank then rerank_response env q top_k else engine_response env q top_k) s = (Inl e, s')
   \<Longrightarrow> query env q top_k show_sources use_rerank s = (failure_result q e, s')"
  by (simp add: query_def query_body_def and_then_def)

lemma query_body_question:
  "query_body env q top_k show_sources use_rerank s = (Inr r, s') \<Longrightarrow> question r = q"
  unfolding query_body_def and_then_def succeed_def read_clock_def
  by (auto split: prod.splits sum.splits)

lemma query_question: "question (fst (query env q top_k show_sources use_rerank s)) = q"
proof -
  obtain a s' where b: "query_body env q top_k show_sources use_rerank s = (a, s')"
    by (cases "query_body env q top_k show_sources use_rerank s")
  then show ?thesis
    by (cases a) (auto simp: query_def failure_result_def dest: query_body_question)
qed

lemma batch_loop_acc:
  "fst (batch_loop env qs acc s) = acc @ fst (batch_loop env qs [] s)"
proof (induction qs arbitrary: acc s)
  case Nil
  then show ?case by simp
next
  case (Cons q qs)
  obtain r s1 where r: "query env q None False False s = (r, s1)"
    by (cases "query env q None False False s")
  have "fst (batch_loop env (q # qs) acc s) = fst (batch_loop env qs (acc @ [r]) s1)"
    using r by simp
  also have "\<dots> = (acc @ [r]) @ fst (batch_loop env qs [] s1)" by (rule Cons.IH)
  also have "\<dots> = acc @ fst (batch_loop env qs ([] @ [r]) s1)"
    using Cons.IH [of "[] @ [r]" s1] by simp
  finally show ?case using r by simp
qed

lemma batch_loop_step:
  "fst (batch_loop env (q # qs) [] s) =
     fst (query env q None False False s) #
     fst (batch_loop env qs [] (snd (query env q None False False s)))"
proof -
  obtain r s1 where r: "query env q None False False s = (r, s1)"
    by (cases "query env q None False False s")
  then have "fst (batch_loop env (q # qs) [] s) = fst (batch_loop env qs [r] s1)" by simp
  then show ?thesis using batch_loop_acc [of env qs "[r]" s1] r by simp
qed

lemma batch_loop_questions: "map question (fst (batch_loop env qs [] s)) = qs"
proof (induction qs arbitrary: s)
  case Nil
  then show ?case by simp
next
  case (Cons q qs)
  show ?case unfolding batch_loop_step by (simp add: query_question Cons.IH)
qed

lemma batch_query_results: "fst (batch_query env qs out s) = fst (batch_loop env qs [] s)"
  by (auto simp: batch_query_def split: prod.splits option.splits)

text \<open>
  C2.  When the body of \<open>query\<close> raises (in particular when the retrieval, rerank,
  completion or engine step does), \<open>query\<close> returns a result with the question, the
  failure prefix followed by the text of the error as answer, no sources and a
  processing time of zero.  Every result carries its question.  \<open>batch_query\<close> on \<open>n\<close>
  questions returns \<open>n\<close> results whose questions are the input questions in order, and
  the results after the first question are those of the batch on the remaining
  questions, whatever the first query returned.
\<close>

theorem query_failure_wellformed:
  "(query_body env q top_k show_sources use_rerank s = (Inl e, s') \<longrightarrow>
      query env q top_k show_sources use_rerank s =
        (\<lparr>question = q, answer = query_failed_prefix @ message e, sources = [],
          processing_time = 0\<rparr>, s'))
   \<and> ((if use_rerank then rerank_response env q top_k else engine_response env q top_k) s
         = (Inl e, s') \<longrightarrow>
      query env q top_k show_sources use_rerank s =
        (\<lparr>question = q, answer = query_failed_prefix @ message e, sources = [],
          processing_time = 0\<rparr>, s'))
   \<and> question (fst (query env q top_k show_sources use_rerank s)) = q
   \<and> length (fst (batch_query env qs out s)) = length qs
   \<and> map question (fst (batch_query env qs out s)) = qs
   \<and> fst (batch_query env (q # qs) out s) =
       fst (query env q None False False s) #
       fst (batch_query env qs out (snd (query env q None False False s)))"
proof -
  have "length (map question (fst (batch_query env qs out s))) = length qs"
    unfolding batch_query_results batch_loop_questions ..
  then have len: "length (fst (batch_query env qs out s)) = length qs" by simp
  show ?thesis
    using query_failure [of env q top_k show_sources use_rerank s e s']
      response_failure [of use_rerank env q top_k s e s' show_sources]
      query_question [of env q top_k show_sources use_rerank s] len
      batch_loop_questions [of env qs s] batch_loop_step [of env q qs s]
    by (simp add: batch_query_results failure_result_def)
qed

theorem query_failure_wellformed_witness:
  "query_body batch_env [98] None False False ((), []) =
     (Inl (Exception [110, 111]), ((), [CallEngine 5 [98]]))
   \<and> query batch_env [98] None False False ((), []) =
       (\<lparr>question = [98], answer = query_failed_prefix @ [110, 111], sources = [],
         processing_time = 0\<rparr>, ((), [CallEngine 5 [98]]))
   \<and> length (fst (batch_query batch_env [[97], [98], [99]] (Some [111]) ((), []))) = 3
   \<and> map question (fst (batch_query batch_env [[97], [98], [99]] (Some [111]) ((), []))) =
       [[97], [98], [99]]
   \<and> map answer (fst (batch_query batch_env [[97], [98], [99]] (Some [111]) ((), []))) =
       [[97, 33], query_failed_prefix @ [110, 111], [99, 33]]"
proof -
  have h: "query_body batch_env [98] None False False ((), []) =
             (Inl (Exception [110, 111]), ((), [CallEngine 5 [98]]))"
    by (simp add: query_defs batch_env_def)
  have r: "map answer (fst (batch_query batch_env [[97], [98], [99]] (Some [111]) ((), []))) =
       [[97, 33], query_failed_prefix @ [110, 111], [99, 33]]"
    by (simp add: batch_query_def query_defs batch_env_def)
  show ?thesis
    using h r
      query_failure_wellformed [of batch_env "[98]" None False False "((), [])" "Exception [110, 111]"
            "((), [CallEngine 5 [98]])" "[[97], [98], [99]]" "Some [111]"]
    by simp
qed

text \<open>
  C1, as amended.  When reranking is requested and the reranker raises after a
  successful retrieval, \<open>query\<close> does not raise: it returns the failure result (the
  prefix and the text of the error as answer, no sources), and the language model is not
  called.  There is no fallback to the retrieved candidates.
\<close>

theorem rerank_failure_fails_query:
  assumes "retrieve env (top_k_or_default top_k * 2) q w = (Inr nodes, w1)"
    and "rank env q (map n_text nodes) (top_k_or_default top_k) w1 = (Inl e, w2)"
  shows "query env q top_k show_sources True (w, tr) =
           (\<lparr>question = q, answer = query_failed_prefix @ message e, sources = [],
             processing_time = 0\<rparr>,
            (w2, tr @ [CallRetrieve (top_k_or_default top_k * 2) q,
                       CallRank q (map n_text nodes) (top_k_or_default top_k)]))"
  using assms
  by (simp add: query_def query_body_def rerank_response_def and_then_def call_retrieve_def
        call_rank_def failure_result_def)

theorem rerank_failure_fails_query_witness:
  "retrieve (canned_env [short_node] (Inl (Exception [120])) (Inr [])) 4 [113] () =
     (Inr [short_node], ())
   \<and> rank (canned_env [short_node] (Inl (Exception [120])) (Inr [])) [113] [[98]] 2 () =
     (Inl (Exception [120]), ())
   \<and> query (canned_env [short_node] (Inl (Exception [120])) (Inr [])) [113] (Some 2) False True
       ((), []) =
     (\<lparr>question = [113], answer = query_failed_prefix @ [120], sources = [], processing_time = 0\<rparr>,
      ((), [CallRetrieve 4 [113], CallRank [113] [[98]] 2]))"
proof -
  let ?E = "canned_env [short_node] (Inl (Exception [120])) (Inr [])"
  have k: "top_k_or_default (Some 2) = 2" by (simp add: top_k_or_default_def)
  have h1: "retrieve ?E (top_k_or_default (Some 2) * 2) [113] () = (Inr [short_node], ())"
    by (simp add: canned_env_def)
  have h2: "rank ?E [113] (map n_text [short_node]) (top_k_or_default (Some 2)) () =
              (Inl (Exception [120]), ())"
    by (simp add: canned_env_def)
  have t: "map n_text [short_node] = [[98]]" by (simp add: short_node_def)
  show ?thesis using h1 h2 rerank_failure_fails_query [OF h1 h2, of False "[]"] unfolding k t by simp
qed

text \<open>
  C1 as stated fails: with two retrieved nodes and a reranker that raises, the sources
  of the result are empty, not the two retrieved candidates.
\<close>

theorem rerank_fallback_counterexample:
  "query (canned_env [short_node, long_node] (Inl (Exception [100, 111, 119, 110])) (Inr [111, 107]))
      [113] None True True ((), []) =
     (\<lparr>question = [113], answer = query_failed_prefix @ [100, 111, 119, 110], sources = [],
       processing_time = 0\<rparr>,
      ((), [CallRetrieve 10 [113], CallRank [113] [[98], replicate 201 97] 5]))
   \<and> sources (fst (query (canned_env [short_node, long_node] (Inl (Exception [100, 111, 119, 110]))
                        (Inr [111, 107])) [113] None True True ((), []))) \<noteq>
     map source_info_of [short_node, long_node]"
  by (simp add: query_def query_body_def rerank_response_def and_then_def call_retrieve_def
        call_rank_def failure_result_def canned_env_def top_k_or_default_def SIMILARITY_TOP_K_def
        short_node_def long_node_def)

section \<open>Properties of the rerank loop\<close>

lemma match_node_None: "match_node ns d i = None \<longleftrightarrow> d \<notin> set (map n_text ns)"
  by (induction ns d i rule: match_node.induct) auto

lemma match_node_Some:
  "match_node ns d i = Some j \<Longrightarrow> i \<le> j \<and> j - i < length ns \<and> n_text (ns ! (j - i)) = d"
proof (induction ns d i rule: match_node.induct)
  case (1 d i)
  then show ?case by simp
next
  case (2 n ns d i)
  show ?case
  proof (cases "n_text n = d")
    case True
    then show ?thesis using 2 by simp
  next
    case False
    then have m: "match_node ns d (Suc i) = Some j" using 2(2) by simp
    from 2(1) [OF False m] have "Suc i \<le> j" "j - Suc i < length ns" "n_text (ns ! (j - Suc i)) = d"
      by auto
    then show ?thesis by (simp add: Suc_diff_le nth_Cons')
  qed
qed

lemma match_node_texts:
  "map n_text ns = map n_text ms \<Longrightarrow> match_node ns d i = match_node ms d i"
proof (induction ns d i arbitrary: ms rule: match_node.induct)
  case (1 d i)
  then show ?case by simp
next
  case (2 n ns d i)
  then obtain m ms' where ms: "ms = m # ms'" "n_text n = n_text m" "map n_text ns = map n_text ms'"
    by (cases ms) auto
  then show ?case using 2(1) [of ms'] by auto
qed

lemma match_node_0:
  "match_node ns d 0 = Some j \<Longrightarrow> j < length ns \<and> n_text (ns ! j) = d"
  using match_node_Some [of ns d 0 j] by simp

lemma set_score_texts:
  "i < length st \<Longrightarrow> map n_text (st[i := (st ! i)\<lparr>n_score := x\<rparr>]) = map n_text st"
  by (simp add: map_update list_update_same_conv)

lemma set_score_metadata:
  "i < length st \<Longrightarrow> map n_metadata (st[i := (st ! i)\<lparr>n_score := x\<rparr>]) = map n_metadata st"
  by (simp add: map_update list_update_same_conv)

lemma rerank_loop_invariant:
  "rerank_loop rs st refs = (st', refs') \<Longrightarrow>
     map n_text st' = map n_text st \<and> map n_metadata st' = map n_metadata st \<and>
     refs' = refs @ map (matched_index st) (matched_results st rs)"
proof (induction rs arbitrary: st refs)
  case Nil
  then show ?case by (simp add: matched_results_def)
next
  case (Cons r rs)
  show ?case
  proof (cases "match_node st (rr_document r) 0")
    case None
    then have "rerank_loop rs st refs = (st', refs')" using Cons.prems by simp
    from Cons.IH [OF this] show ?thesis
      using None by (simp add: matched_results_def match_node_None)
  next
    case (Some i)
    let ?st = "st[i := (st ! i)\<lparr>n_score := Some (rr_score r)\<rparr>]"
    have i: "i < length st" using match_node_0 [OF Some] by simp
    have t: "map n_text ?st = map n_text st" by (rule set_score_texts [OF i])
    have m: "map n_metadata ?st = map n_metadata st" by (rule set_score_metadata [OF i])
    have "rerank_loop rs ?st (refs @ [i]) = (st', refs')" using Cons.prems Some by simp
    from Cons.IH [OF this]
    have a: "map n_text st' = map n_text ?st" "map n_metadata st' = map n_metadata ?st"
      "refs' = (refs @ [i]) @ map (matched_index ?st) (matched_results ?st rs)" by auto
    have same: "matched_index ?st = matched_index st"
      by (rule ext) (simp add: matched_index_def match_node_texts [OF t])
    have in_st: "rr_document r \<in> set (map n_text st)"
      using Some match_node_None [of st "rr_document r" 0] by auto
    have "matched_results ?st rs = matched_results st rs"
      by (simp only: matched_results_def t)
    then show ?thesis
      using a t m same in_st Some by (simp add: matched_results_def matched_index_def)
  qed
qed

lemma matched_index_text:
  assumes "rr_document r \<in> set (map n_text st)"
  shows "matched_index st r < length st \<and> n_text (st ! matched_index st r) = rr_document r"
proof -
  obtain i where i: "match_node st (rr_document r) 0 = Some i"
    using assms match_node_None [of st "rr_document r" 0] by (cases "match_node st (rr_document r) 0") auto
  then show ?thesis using match_node_0 [OF i] by (simp add: matched_index_def)
qed

lemma reranked_refs_eq:
  "reranked_refs nodes rs = map (matched_index nodes) (matched_results nodes rs)"
proof -
  obtain st' refs' where l: "rerank_loop rs nodes [] = (st', refs')" by (cases "rerank_loop rs nodes []")
  then show ?thesis using rerank_loop_invariant [OF l] by (simp add: reranked_refs_def)
qed

lemma reranked_nodes_nth:
  assumes "j < length (reranked_refs nodes rs)"
  shows "reranked_refs nodes rs ! j < length nodes
       \<and> n_text (reranked_nodes nodes rs ! j) = n_text (nodes ! (reranked_refs nodes rs ! j))
       \<and> n_metadata (reranked_nodes nodes rs ! j) = n_metadata (nodes ! (reranked_refs nodes rs ! j))
       \<and> n_text (reranked_nodes nodes rs ! j) = rr_document (matched_results nodes rs ! j)"
proof -
  obtain st' refs' where l: "rerank_loop rs nodes [] = (st', refs')" by (cases "rerank_loop rs nodes []")
  note inv = rerank_loop_invariant [OF l]
  have refs: "refs' = reranked_refs nodes rs" using l by (simp add: reranked_refs_def)
  have out: "reranked_nodes nodes rs = map (\<lambda>i. st' ! i) refs'" using l by (simp add: reranked_nodes_def)
  have len: "length st' = length nodes" using inv by (metis length_map)
  let ?r = "matched_results nodes rs ! j"
  have jm: "j < length (matched_results nodes rs)" using assms by (simp add: reranked_refs_eq)
  then have "?r \<in> set (matched_results nodes rs)" by simp
  then have rin: "rr_document ?r \<in> set (map n_text nodes)" by (simp add: matched_results_def)
  have ref: "reranked_refs nodes rs ! j = matched_index nodes ?r" using jm by (simp add: reranked_refs_eq)
  note mi = matched_index_text [OF rin]
  have lt: "reranked_refs nodes rs ! j < length nodes" using mi ref by simp
  have "n_text (st' ! (reranked_refs nodes rs ! j)) = map n_text st' ! (reranked_refs nodes rs ! j)"
    using lt len by simp
  then have tx: "n_text (st' ! (reranked_refs nodes rs ! j)) = n_text (nodes ! (reranked_refs nodes rs ! j))"
    using inv lt by simp
  have "n_metadata (st' ! (reranked_refs nodes rs ! j)) = map n_metadata st' ! (reranked_refs nodes rs ! j)"
    using lt len by simp
  then have md: "n_metadata (st' ! (reranked_refs nodes rs ! j)) = n_metadata (nodes ! (reranked_refs nodes rs ! j))"
    using inv lt by simp
  show ?thesis using lt tx md mi ref assms by (simp add: out refs)
qed

lemma reranked_nodes_length: "length (reranked_nodes nodes rs) = length (reranked_refs nodes rs)"
  by (simp add: reranked_nodes_def reranked_refs_def split: prod.splits)

lemma reranked_nodes_texts:
  "map n_text (reranked_nodes nodes rs) = map rr_document (matched_results nodes rs)"
proof (rule nth_equalityI)
  show "length (map n_text (reranked_nodes nodes rs)) = length (map rr_document (matched_results nodes rs))"
    by (simp add: reranked_nodes_length reranked_refs_eq)
next
  fix j assume "j < length (map n_text (reranked_nodes nodes rs))"
  then have j: "j < length (reranked_refs nodes rs)" by (simp add: reranked_nodes_length)
  then show "map n_text (reranked_nodes nodes rs) ! j = map rr_document (matched_results nodes rs) ! j"
    using conjunct2 [OF conjunct2 [OF conjunct2 [OF reranked_nodes_nth [OF j]]]] j
    by (simp add: reranked_nodes_length reranked_refs_eq)
qed


lemma rerank_loop_untouched:
  "rerank_loop rs st refs = (st', refs') \<Longrightarrow> d \<notin> set (map rr_document rs) \<Longrightarrow>
   match_node st d 0 = Some i \<Longrightarrow> st' ! i = st ! i"
proof (induction rs arbitrary: st refs)
  case Nil
  then show ?case by simp
next
  case (Cons r rs)
  have dr: "rr_document r \<noteq> d" and drs: "d \<notin> set (map rr_document rs)" using Cons.prems(2) by auto
  show ?case
  proof (cases "match_node st (rr_document r) 0")
    case None
    then have "rerank_loop rs st refs = (st', refs')" using Cons.prems(1) by simp
    from Cons.IH [OF this drs Cons.prems(3)] show ?thesis .
  next
    case (Some j)
    let ?st = "st[j := (st ! j)\<lparr>n_score := Some (rr_score r)\<rparr>]"
    have j: "j < length st" "n_text (st ! j) = rr_document r" using match_node_0 [OF Some] by auto
    have i: "i < length st" "n_text (st ! i) = d" using match_node_0 [OF Cons.prems(3)] by auto
    have ne: "i \<noteq> j" using j i dr by auto
    have t: "map n_text ?st = map n_text st" by (rule set_score_texts [OF j(1)])
    have m: "match_node ?st d 0 = Some i" using Cons.prems(3) match_node_texts [OF t] by simp
    have "rerank_loop rs ?st (refs @ [j]) = (st', refs')" using Cons.prems(1) Some by simp
    from Cons.IH [OF this drs m] have "st' ! i = ?st ! i" .
    then show ?thesis using ne by simp
  qed
qed

lemma in_matched_results:
  "r \<in> set (matched_results st rs) \<longleftrightarrow> r \<in> set rs \<and> rr_document r \<in> set (map n_text st)"
  by (simp add: matched_results_def)

lemma same_text_same_scoreD:
  "same_text_same_score rs \<Longrightarrow> a \<in> set rs \<Longrightarrow> b \<in> set rs \<Longrightarrow>
   rr_document a = rr_document b \<Longrightarrow> rr_score a = rr_score b"
  unfolding same_text_same_score_def by blast

lemma same_text_same_score_tail:
  assumes "same_text_same_score (x # rs)"
  shows "same_text_same_score rs"
  unfolding same_text_same_score_def
proof (intro ballI impI)
  fix r1 r2
  assume a: "r1 \<in> set rs" "r2 \<in> set rs" "rr_document r1 = rr_document r2"
  then have "r1 \<in> set (x # rs)" "r2 \<in> set (x # rs)" by simp_all
  then show "rr_score r1 = rr_score r2" using a(3) by (rule same_text_same_scoreD [OF assms])
qed

lemma rerank_loop_scores:
  "rerank_loop rs st refs = (st', refs') \<Longrightarrow> same_text_same_score rs \<Longrightarrow>
   r \<in> set (matched_results st rs) \<Longrightarrow> n_score (st' ! matched_index st r) = Some (rr_score r)"
proof (induction rs arbitrary: st refs r)
  case Nil
  then show ?case by (simp add: matched_results_def)
next
  case (Cons x rs)
  have same: "same_text_same_score rs" by (rule same_text_same_score_tail [OF Cons.prems(2)])
  have rin: "rr_document r \<in> set (map n_text st)" "r \<in> set (x # rs)"
    using Cons.prems(3) unfolding in_matched_results by blast+
  show ?case
  proof (cases "match_node st (rr_document x) 0")
    case None
    then have l: "rerank_loop rs st refs = (st', refs')" using Cons.prems(1) by simp
    have "r \<noteq> x" using None rin match_node_None [of st "rr_document x" 0] by auto
    then have "r \<in> set (matched_results st rs)" using rin unfolding in_matched_results by simp
    from Cons.IH [OF l same this] show ?thesis .
  next
    case (Some j)
    let ?st = "st[j := (st ! j)\<lparr>n_score := Some (rr_score x)\<rparr>]"
    have j: "j < length st" "n_text (st ! j) = rr_document x" using match_node_0 [OF Some] by auto
    have t: "map n_text ?st = map n_text st" by (rule set_score_texts [OF j(1)])
    have mi: "matched_index ?st = matched_index st"
      by (rule ext) (simp add: matched_index_def match_node_texts [OF t])
    have mr: "matched_results ?st rs = matched_results st rs" by (simp only: matched_results_def t)
    have l: "rerank_loop rs ?st (refs @ [j]) = (st', refs')" using Cons.prems(1) Some by simp
    show ?thesis
    proof (cases "rr_document r \<in> set (map rr_document rs)")
      case True
      then obtain y where y: "y \<in> set rs" "rr_document y = rr_document r" by auto
      then have "y \<in> set (matched_results st rs)" using rin(1) unfolding in_matched_results by simp
      then have ym: "y \<in> set (matched_results ?st rs)" by (simp only: mr)
      have "n_score (st' ! matched_index ?st y) = Some (rr_score y)"
        by (rule Cons.IH [OF l same ym])
      moreover have "matched_index st y = matched_index st r" using y by (simp add: matched_index_def)
      moreover have "rr_score y = rr_score r"
      proof (rule same_text_same_scoreD [OF Cons.prems(2)])
        show "y \<in> set (x # rs)" using y(1) by simp
        show "r \<in> set (x # rs)" by (rule rin(2))
        show "rr_document y = rr_document r" by (rule y(2))
      qed
      ultimately show ?thesis by (simp add: mi)
    next
      case False
      then have rx: "r = x" using rin by auto
      have m: "match_node ?st (rr_document r) 0 = Some j"
        using Some rx match_node_texts [OF t] by simp
      have "st' ! j = ?st ! j" by (rule rerank_loop_untouched [OF l False m])
      then show ?thesis using j rx Some by (simp add: matched_index_def)
    qed
  qed
qed

lemma reranked_nodes_scores:
  assumes "same_text_same_score rs"
  shows "map n_score (reranked_nodes nodes rs) = map (\<lambda>r. Some (rr_score r)) (matched_results nodes rs)"
proof -
  obtain st' refs' where l: "rerank_loop rs nodes [] = (st', refs')" by (cases "rerank_loop rs nodes []")
  have refs: "refs' = map (matched_index nodes) (matched_results nodes rs)"
    using rerank_loop_invariant [OF l] by simp
  have "map n_score (reranked_nodes nodes rs) =
          map (\<lambda>r. n_score (st' ! matched_index nodes r)) (matched_results nodes rs)"
    using l by (simp add: reranked_nodes_def refs comp_def)
  also have "\<dots> = map (\<lambda>r. Some (rr_score r)) (matched_results nodes rs)"
    by (rule map_cong [OF refl]) (rule rerank_loop_scores [OF l assms])
  finally show ?thesis .
qed

lemma reranked_sources_sorted:
  assumes "same_text_same_score rs" and "sorted_wrt (\<lambda>a b. a \<ge> b) (map rr_score rs)"
  shows "sorted_wrt (\<lambda>a b. a \<ge> b) (map src_score (map source_info_of (reranked_nodes nodes rs)))"
proof -
  have "map src_score (map source_info_of (reranked_nodes nodes rs)) =
          map (\<lambda>x. case x of None \<Rightarrow> 0 | Some y \<Rightarrow> y) (map n_score (reranked_nodes nodes rs))"
    by (simp add: source_info_of_def score_or_zero_def comp_def)
  also have "\<dots> = map rr_score (matched_results nodes rs)"
    by (simp add: reranked_nodes_scores [OF assms(1)] comp_def)
  finally have e: "map src_score (map source_info_of (reranked_nodes nodes rs)) =
                     map rr_score (matched_results nodes rs)" .
  have "sorted_wrt (\<lambda>x y. rr_score x \<ge> rr_score y) rs"
    using assms(2) by (simp add: sorted_wrt_map)
  then have "sorted_wrt (\<lambda>x y. rr_score x \<ge> rr_score y) (matched_results nodes rs)"
    unfolding matched_results_def by (rule sorted_wrt_filter)
  then show ?thesis unfolding e by (simp add: sorted_wrt_map)
qed









section \<open>Properties of the rerank path\<close>

lemma sublist_tail_fallback: "sublist fallback_sentence template_tail"
  unfolding sublist_def
  by (rule exI [of _ "take 58 template_tail"], rule exI [of _ "drop 67 template_tail"])
     (simp add: template_tail_def fallback_sentence_def)

lemma sublist_tail_grounding: "sublist grounding_sentence template_tail"
  unfolding sublist_def
  by (rule exI [of _ "take 86 template_tail"], rule exI [of _ "drop 106 template_tail"])
     (simp add: template_tail_def grounding_sentence_def)

lemma sublist_format_prompt:
  "sublist x template_tail \<Longrightarrow> sublist x (format_prompt c q)"
proof -
  assume "sublist x template_tail"
  then obtain ps ss where "template_tail = ps @ x @ ss" unfolding sublist_def by blast
  then have "format_prompt c q = (template_head @ c @ template_middle @ q @ ps) @ x @ ss"
    by (simp add: format_prompt_def)
  then show ?thesis unfolding sublist_def by blast
qed

lemma appends_succeed: "appends_calls (succeed x)"
  by (simp add: appends_calls_def succeed_def)

lemma appends_read_clock: "appends_calls (read_clock env)"
  by (simp add: appends_calls_def read_clock_def)

lemma appends_call_retrieve: "appends_calls (call_retrieve env k q)"
  by (simp add: appends_calls_def call_retrieve_def split: prod.splits)

lemma appends_call_rank: "appends_calls (call_rank env q ds k)"
  by (simp add: appends_calls_def call_rank_def split: prod.splits)

lemma appends_call_complete: "appends_calls (call_complete env p)"
  by (simp add: appends_calls_def call_complete_def split: prod.splits)

lemma appends_call_engine: "appends_calls (call_engine env k q)"
  by (simp add: appends_calls_def call_engine_def split: prod.splits)

lemma appends_call_log: "appends_calls (call_log env msg)"
  by (simp add: appends_calls_def call_log_def split: prod.splits)

lemma appends_and_then:
  assumes "appends_calls m" and "\<And>x. appends_calls (f x)"
  shows "appends_calls (and_then m f)"
  unfolding appends_calls_def
proof
  fix s
  obtain r s1 where m: "m s = (r, s1)" by (cases "m s")
  obtain cs where cs: "snd s1 = snd s @ cs"
    using assms(1) m unfolding appends_calls_def by (metis snd_conv)
  show "\<exists>cs. snd (snd (and_then m f s)) = snd s @ cs"
  proof (cases r)
    case (Inl e)
    then show ?thesis using m cs by (simp add: and_then_def)
  next
    case (Inr x)
    obtain ds where "snd (snd (f x s1)) = snd s1 @ ds"
      using assms(2) [of x] unfolding appends_calls_def by blast
    then show ?thesis using m cs Inr by (simp add: and_then_def)
  qed
qed

lemma and_then_assoc: "and_then (and_then m f) g = and_then m (\<lambda>x. and_then (f x) g)"
  by (rule ext) (simp add: and_then_def split: prod.splits sum.splits)

lemma appends_after_response:
  "appends_calls (\<lambda>s. 
     and_then (read_clock env) (\<lambda>time_spent.
     and_then
       (if show_sources then
          (case source_nodes response of
             None \<Rightarrow> succeed []
           | Some nodes \<Rightarrow>
               (case sources_loop 1 nodes [] [] of
                  (sources_log, srcs) \<Rightarrow>
                    and_then (call_log env (SourcesLog sources_log)) (\<lambda>u. succeed srcs)))
        else succeed [])
       (\<lambda>srcs.
     and_then
       (call_log env
          (log_query_result
             \<lparr>question = q, answer = resp_text response, sources = srcs,
              processing_time = time_spent\<rparr>))
       (\<lambda>u. succeed \<lparr>question = q, answer = resp_text response, sources = srcs,
                      processing_time = time_spent\<rparr>))) s)"
  by (auto intro!: appends_and_then appends_read_clock appends_call_log appends_succeed
       split: option.splits prod.splits)

lemma query_state:
  "snd (query env q top_k show_sources use_rerank s) =
   snd (query_body env q top_k show_sources use_rerank s)"
  by (simp add: query_def split: prod.splits sum.splits)

lemma first_call_retrieve:
  assumes "\<And>x. appends_calls (f x)"
  shows "\<exists>rest. snd (snd (and_then (call_retrieve env k q) f (w, tr))) = tr @ CallRetrieve k q # rest"
proof -
  obtain r w1 where rt: "retrieve env k q w = (r, w1)" by (cases "retrieve env k q w")
  then have cr: "call_retrieve env k q (w, tr) = (r, (w1, tr @ [CallRetrieve k q]))"
    by (simp add: call_retrieve_def)
  show ?thesis
  proof (cases r)
    case (Inl e)
    then show ?thesis using cr by (simp add: and_then_def)
  next
    case (Inr x)
    obtain cs where "snd (snd (f x (w1, tr @ [CallRetrieve k q]))) = snd (w1, tr @ [CallRetrieve k q]) @ cs"
      using assms [of x] unfolding appends_calls_def by blast
    then show ?thesis using cr Inr by (simp add: and_then_def)
  qed
qed

lemma rerank_first_call:
  "\<exists>rest. snd (snd (query env q top_k show_sources True (w, tr))) =
           tr @ CallRetrieve (top_k_or_default top_k * 2) q # rest"
  unfolding query_state query_body_def rerank_response_def if_True and_then_assoc
  by (rule first_call_retrieve)
     (auto intro!: appends_and_then appends_read_clock appends_call_log appends_succeed
        appends_call_rank appends_call_complete split: option.splits prod.splits)

lemma rerank_response_success:
  assumes "retrieve env (top_k_or_default top_k * 2) q w = (Inr nodes, w1)"
    and "rank env q (map n_text nodes) (top_k_or_default top_k) w1 = (Inr rs, w2)"
    and "complete env (format_prompt (join [NEWLINE, NEWLINE] (map rr_document rs)) q) w2 = (Inr txt, w3)"
  shows "rerank_response env q top_k (w, tr) =
           (Inr \<lparr>resp_text = txt, source_nodes = Some (reranked_nodes nodes rs)\<rparr>,
            (w3, tr @ [CallRetrieve (top_k_or_default top_k * 2) q,
                       CallRank q (map n_text nodes) (top_k_or_default top_k),
                       CallComplete (format_prompt (join [NEWLINE, NEWLINE] (map rr_document rs)) q)]))"
  using assms
  by (simp add: rerank_response_def and_then_def call_retrieve_def call_rank_def call_complete_def
        succeed_def)

lemma rerank_query_success:
  assumes "retrieve env (top_k_or_default top_k * 2) q w = (Inr nodes, w1)"
    and "rank env q (map n_text nodes) (top_k_or_default top_k) w1 = (Inr rs, w2)"
    and "complete env (format_prompt (join [NEWLINE, NEWLINE] (map rr_document rs)) q) w2 = (Inr txt, w3)"
    and "logger_ok env"
  shows "\<exists>w4 logs. query env q top_k show_sources True (w, tr) =
           (\<lparr>question = q, answer = txt,
             sources = (if show_sources then map source_info_of (reranked_nodes nodes rs) else []),
             processing_time = elapsed env w3\<rparr>,
            (w4, tr @ [CallRetrieve (top_k_or_default top_k * 2) q,
                       CallRank q (map n_text nodes) (top_k_or_default top_k),
                       CallComplete (format_prompt (join [NEWLINE, NEWLINE] (map rr_document rs)) q)]
                 @ logs))"
proof -
  let ?resp = "\<lparr>resp_text = txt, source_nodes = Some (reranked_nodes nodes rs)\<rparr>"
  let ?s1 = "(w3, tr @ [CallRetrieve (top_k_or_default top_k * 2) q,
                       CallRank q (map n_text nodes) (top_k_or_default top_k),
                       CallComplete (format_prompt (join [NEWLINE, NEWLINE] (map rr_document rs)) q)])"
  have r: "(if True then rerank_response env q top_k else engine_response env q top_k) (w, tr) =
             (Inr ?resp, ?s1)"
    using rerank_response_success [OF assms(1-3)] by simp
  from query_after_response [OF r assms(4), of show_sources]
  show ?thesis by auto
qed

lemma reranked_sources_scores:
  assumes "same_text_same_score rs"
  shows "map src_score (map source_info_of (reranked_nodes nodes rs)) =
           map rr_score (matched_results nodes rs)"
proof -
  have "map src_score (map source_info_of (reranked_nodes nodes rs)) =
          map (\<lambda>x. case x of None \<Rightarrow> 0 | Some y \<Rightarrow> y) (map n_score (reranked_nodes nodes rs))"
    by (simp add: source_info_of_def score_or_zero_def comp_def)
  also have "\<dots> = map rr_score (matched_results nodes rs)"
    by (simp add: reranked_nodes_scores [OF assms] comp_def)
  finally show ?thesis .
qed

lemma reranked_sources_texts:
  "map src_text (map source_info_of (reranked_nodes nodes rs)) =
     map rr_document (matched_results nodes rs)"
proof -
  have "map src_text (map source_info_of (reranked_nodes nodes rs)) =
          map n_text (reranked_nodes nodes rs)"
    by (simp add: source_info_of_def comp_def)
  then show ?thesis by (simp only: reranked_nodes_texts)
qed

lemma matched_results_sorted:
  assumes "sorted_wrt (\<lambda>a b. a \<ge> b) (map rr_score rs)"
  shows "sorted_wrt (\<lambda>a b. a \<ge> b) (map rr_score (matched_results nodes rs))"
proof -
  have "sorted_wrt (\<lambda>x y. rr_score x \<ge> rr_score y) rs"
    using assms by (simp add: sorted_wrt_map)
  then have "sorted_wrt (\<lambda>x y. rr_score x \<ge> rr_score y) (matched_results nodes rs)"
    unfolding matched_results_def by (rule sorted_wrt_filter)
  then show ?thesis by (simp add: sorted_wrt_map)
qed

lemma desired_count:
  "(top_k = None \<and> kk = 5) \<or> (top_k = Some 0 \<and> kk = 5) \<or> (top_k = Some kk \<and> kk \<noteq> 0) \<Longrightarrow>
   top_k_or_default top_k = kk"
  by (auto simp: top_k_or_default_def SIMILARITY_TOP_K_def)

lemma rerank_query_exact:
  assumes "retrieve env (top_k_or_default top_k * 2) q w = (Inr nodes, w1)"
    and "rank env q (map n_text nodes) (top_k_or_default top_k) w1 = (Inr rs, w2)"
    and "complete env (format_prompt (join [NEWLINE, NEWLINE] (map rr_document rs)) q) w2 = (Inr txt, w3)"
    and "logger_ok env"
  shows "\<exists>w4. query env q top_k show_sources True (w, tr) =
           (\<lparr>question = q, answer = txt,
             sources = (if show_sources then map source_info_of (reranked_nodes nodes rs) else []),
             processing_time = elapsed env w3\<rparr>,
            (w4, tr @ [CallRetrieve (top_k_or_default top_k * 2) q,
                       CallRank q (map n_text nodes) (top_k_or_default top_k),
                       CallComplete (format_prompt (join [NEWLINE, NEWLINE] (map rr_document rs)) q)]
                 @ (if show_sources
                    then [CallLog (SourcesLog (fst (sources_loop 1 (reranked_nodes nodes rs) [] [])))]
                    else [])
                 @ [CallLog (log_query_result
                      \<lparr>question = q, answer = txt,
                       sources = (if show_sources then map source_info_of (reranked_nodes nodes rs)
                                  else []),
                       processing_time = elapsed env w3\<rparr>)]))"
proof -
  let ?resp = "\<lparr>resp_text = txt, source_nodes = Some (reranked_nodes nodes rs)\<rparr>"
  let ?s1 = "(w3, tr @ [CallRetrieve (top_k_or_default top_k * 2) q,
                       CallRank q (map n_text nodes) (top_k_or_default top_k),
                       CallComplete (format_prompt (join [NEWLINE, NEWLINE] (map rr_document rs)) q)])"
  have r: "(if True then rerank_response env q top_k else engine_response env q top_k) (w, tr) =
             (Inr ?resp, ?s1)"
    using rerank_response_success [OF assms(1-3)] by simp
  from query_after_response [OF r assms(4), of show_sources]
  show ?thesis by auto
qed

text \<open>
  C4.  Let \<open>k\<close> be the desired count: \<open>top_k\<close> when it is given and not 0, and the
  configured default 5 when it is unset (or 0).  A query with reranking first asks the
  retriever for \<open>2 * k\<close> candidates.  When the retrieval, the reranker (asked for \<open>k\<close>
  results) and the language model succeed and the reranker keeps its contract, the calls
  made are exactly the retrieval, the rerank, one completion and the two log entries; the
  sources of the result number at most \<open>min(k, number of retrieved candidates)\<close>; their
  texts are the matched results' documents in the reranker's order, which is the order of
  descending rerank score; and when results with the same document have the same score,
  the scores recorded on the sources are those rerank scores and descend.
\<close>

theorem rerank_overfetch_and_order:
  "(top_k = None \<and> kk = 5) \<or> (top_k = Some 0 \<and> kk = 5) \<or> (top_k = Some kk \<and> kk \<noteq> 0) \<longrightarrow>
   (\<exists>rest. snd (snd (query env q top_k show_sources True (w, tr))) =
           tr @ CallRetrieve (2 * kk) q # rest)
   \<and> (retrieve env (2 * kk) q w = (Inr nodes, w1)
      \<and> rank env q (map n_text nodes) kk w1 = (Inr rs, w2)
      \<and> rank_answer_ok rs (map n_text nodes) kk
      \<and> complete env (format_prompt (join [NEWLINE, NEWLINE] (map rr_document rs)) q) w2 = (Inr txt, w3)
      \<and> logger_ok env \<longrightarrow>
      (\<exists>r w4.
         query env q top_k True True (w, tr) =
           (r, (w4, tr @ [CallRetrieve (2 * kk) q,
                          CallRank q (map n_text nodes) kk,
                          CallComplete (format_prompt (join [NEWLINE, NEWLINE] (map rr_document rs)) q),
                          CallLog (SourcesLog (fst (sources_loop 1 (reranked_nodes nodes rs) [] []))),
                          CallLog (log_query_result r)]))
         \<and> answer r = txt
         \<and> sources r = map source_info_of (reranked_nodes nodes rs)
         \<and> int (length (sources r)) \<le> min kk (int (length nodes))
         \<and> map src_text (sources r) = map rr_document (matched_results nodes rs)
         \<and> sorted_wrt (\<lambda>a b. a \<ge> b) (map rr_score (matched_results nodes rs))
         \<and> (same_text_same_score rs \<longrightarrow>
              map src_score (sources r) = map rr_score (matched_results nodes rs)
              \<and> sorted_wrt (\<lambda>a b. a \<ge> b) (map src_score (sources r)))))"
proof (intro impI)
  assume d: "(top_k = None \<and> kk = 5) \<or> (top_k = Some 0 \<and> kk = 5) \<or> (top_k = Some kk \<and> kk \<noteq> 0)"
  have k: "top_k_or_default top_k = kk" by (rule desired_count [OF d])
  have k2: "top_k_or_default top_k * 2 = 2 * kk" using k by simp
  let ?P = "format_prompt (join [NEWLINE, NEWLINE] (map rr_document rs)) q"
  have a: "\<exists>rest. snd (snd (query env q top_k show_sources True (w, tr))) =
           tr @ CallRetrieve (2 * kk) q # rest"
    using rerank_first_call [of env q top_k show_sources w tr] unfolding k2 .
  have b: "\<exists>r w4.
         query env q top_k True True (w, tr) =
           (r, (w4, tr @ [CallRetrieve (2 * kk) q,
                          CallRank q (map n_text nodes) kk,
                          CallComplete ?P,
                          CallLog (SourcesLog (fst (sources_loop 1 (reranked_nodes nodes rs) [] []))),
                          CallLog (log_query_result r)]))
         \<and> answer r = txt
         \<and> sources r = map source_info_of (reranked_nodes nodes rs)
         \<and> int (length (sources r)) \<le> min kk (int (length nodes))
         \<and> map src_text (sources r) = map rr_document (matched_results nodes rs)
         \<and> sorted_wrt (\<lambda>a b. a \<ge> b) (map rr_score (matched_results nodes rs))
         \<and> (same_text_same_score rs \<longrightarrow>
              map src_score (sources r) = map rr_score (matched_results nodes rs)
              \<and> sorted_wrt (\<lambda>a b. a \<ge> b) (map src_score (sources r)))"
    if h1: "retrieve env (2 * kk) q w = (Inr nodes, w1)"
      and h2: "rank env q (map n_text nodes) kk w1 = (Inr rs, w2)"
      and ok: "rank_answer_ok rs (map n_text nodes) kk"
      and h3: "complete env ?P w2 = (Inr txt, w3)"
      and l: "logger_ok env"
  proof -
    let ?S = "map source_info_of (reranked_nodes nodes rs)"
    let ?r = "\<lparr>question = q, answer = txt, sources = ?S, processing_time = elapsed env w3\<rparr>"
    have h1': "retrieve env (top_k_or_default top_k * 2) q w = (Inr nodes, w1)"
      using h1 unfolding k2 .
    have h2': "rank env q (map n_text nodes) (top_k_or_default top_k) w1 = (Inr rs, w2)"
      using h2 unfolding k .
    have len: "length (reranked_nodes nodes rs) \<le> length rs"
      by (simp add: reranked_nodes_length reranked_refs_eq matched_results_def)
    have le: "int (length ?S) \<le> min kk (int (length nodes))"
      using ok len unfolding rank_answer_ok_def by simp
    have t: "map src_text ?S = map rr_document (matched_results nodes rs)"
      by (rule reranked_sources_texts)
    have o: "sorted_wrt (\<lambda>a b. a \<ge> b) (map rr_score (matched_results nodes rs))"
      using ok unfolding rank_answer_ok_def by (intro matched_results_sorted) simp
    have s: "map src_score ?S = map rr_score (matched_results nodes rs)
             \<and> sorted_wrt (\<lambda>a b. a \<ge> b) (map src_score ?S)"
      if "same_text_same_score rs"
      using reranked_sources_scores [OF that, of nodes] o by simp
    obtain w4 where qq: "query env q top_k True True (w, tr) =
           (?r, (w4, tr @ [CallRetrieve (2 * kk) q, CallRank q (map n_text nodes) kk, CallComplete ?P,
                          CallLog (SourcesLog (fst (sources_loop 1 (reranked_nodes nodes rs) [] []))),
                          CallLog (log_query_result ?r)]))"
      using rerank_query_exact [OF h1' h2' h3 l, of True tr] unfolding k k2 by auto
    show ?thesis
      by (rule exI [of _ ?r], rule exI [of _ w4]) (use qq le t o s in simp)
  qed
  show "(\<exists>rest. snd (snd (query env q top_k show_sources True (w, tr))) =
           tr @ CallRetrieve (2 * kk) q # rest)
   \<and> (retrieve env (2 * kk) q w = (Inr nodes, w1)
      \<and> rank env q (map n_text nodes) kk w1 = (Inr rs, w2)
      \<and> rank_answer_ok rs (map n_text nodes) kk
      \<and> complete env ?P w2 = (Inr txt, w3)
      \<and> logger_ok env \<longrightarrow>
      (\<exists>r w4.
         query env q top_k True True (w, tr) =
           (r, (w4, tr @ [CallRetrieve (2 * kk) q,
                          CallRank q (map n_text nodes) kk,
                          CallComplete ?P,
                          CallLog (SourcesLog (fst (sources_loop 1 (reranked_nodes nodes rs) [] []))),
                          CallLog (log_query_result r)]))
         \<and> answer r = txt
         \<and> sources r = map source_info_of (reranked_nodes nodes rs)
         \<and> int (length (sources r)) \<le> min kk (int (length nodes))
         \<and> map src_text (sources r) = map rr_document (matched_results nodes rs)
         \<and> sorted_wrt (\<lambda>a b. a \<ge> b) (map rr_score (matched_results nodes rs))
         \<and> (same_text_same_score rs \<longrightarrow>
              map src_score (sources r) = map rr_score (matched_results nodes rs)
              \<and> sorted_wrt (\<lambda>a b. a \<ge> b) (map src_score (sources r)))))"
    using a b by blast
qed

theorem rerank_overfetch_and_order_witness:
  "retrieve (canned_env [node_a, node_b, node_a'] (Inr ranked_twice) (Inr [111, 107])) 6 [113] () =
     (Inr [node_a, node_b, node_a'], ())
   \<and> rank_answer_ok ranked_twice [[97], [98], [97]] 3
   \<and> take 2 (snd (snd (query (canned_env [node_a, node_b, node_a'] (Inr ranked_twice) (Inr [111, 107]))
                         [113] (Some 3) True True ((), [])))) =
       [CallRetrieve 6 [113], CallRank [113] [[97], [98], [97]] 3]
   \<and> length (snd (snd (query (canned_env [node_a, node_b, node_a'] (Inr ranked_twice) (Inr [111, 107]))
                         [113] (Some 3) True True ((), [])))) = 5
   \<and> map src_score (sources (fst (query
         (canned_env [node_a, node_b, node_a'] (Inr ranked_twice) (Inr [111, 107]))
         [113] (Some 3) True True ((), [])))) = [0.9, 0.9, 0.8]
   \<and> map src_text (sources (fst (query
         (canned_env [node_a, node_b, node_a'] (Inr ranked_twice) (Inr [111, 107]))
         [113] (Some 3) True True ((), [])))) = [[97], [97], [98]]
   \<and> int (length (sources (fst (query
         (canned_env [node_a, node_b, node_a'] (Inr ranked_twice) (Inr [111, 107]))
         [113] (Some 3) True True ((), []))))) \<le> min 3 3
   \<and> hd (snd (snd (query (canned_env [node_a, node_b, node_a'] (Inr ranked_twice) (Inr [111, 107]))
                         [113] None False True ((), [])))) = CallRetrieve 10 [113]"
proof -
  let ?N = "[node_a, node_b, node_a']"
  let ?E = "canned_env ?N (Inr ranked_twice) (Inr [111, 107])"
  let ?P = "format_prompt (join [NEWLINE, NEWLINE] (map rr_document ranked_twice)) [113]"
  have t: "map n_text ?N = [[97], [98], [97]]" by (simp add: node_a_def node_b_def node_a'_def)
  have d: "(Some (3::int) = None \<and> (3::int) = 5) \<or> (Some (3::int) = Some 0 \<and> (3::int) = 5)
            \<or> (Some (3::int) = Some 3 \<and> (3::int) \<noteq> 0)" by simp
  have d0: "((None :: int option) = None \<and> (5::int) = 5) \<or> ((None :: int option) = Some 0 \<and> (5::int) = 5)
            \<or> ((None :: int option) = Some 5 \<and> (5::int) \<noteq> 0)" by simp
  have h1: "retrieve ?E (2 * 3) [113] () = (Inr ?N, ())" by (simp add: canned_env_def)
  have h1': "retrieve ?E 6 [113] () = (Inr ?N, ())" by (simp add: canned_env_def)
  have h2: "rank ?E [113] (map n_text ?N) 3 () = (Inr ranked_twice, ())" by (simp add: canned_env_def)
  have h3: "complete ?E ?P () = (Inr [111, 107], ())" by (simp add: canned_env_def)
  have h4: "logger_ok ?E" by (simp add: logger_ok_def canned_env_def)
  have ok: "rank_answer_ok ranked_twice (map n_text ?N) 3"
    unfolding t by (simp add: rank_answer_ok_def ranked_twice_def)
  have same: "same_text_same_score ranked_twice"
    by (simp add: same_text_same_score_def ranked_twice_def)
  have m: "matched_results ?N ranked_twice = ranked_twice"
    by (simp add: matched_results_def ranked_twice_def node_a_def node_b_def node_a'_def)
  from rerank_overfetch_and_order [of "Some 3" 3 ?E "[113]" True "()" "[]" ?N "()" ranked_twice "()" "[111, 107]" "()"]
    d h1 h2 h3 h4 ok same
  obtain r w4 where q: "query ?E [113] (Some 3) True True ((), []) =
      (r, (w4, [] @ [CallRetrieve (2 * 3) [113], CallRank [113] (map n_text ?N) 3, CallComplete ?P,
                     CallLog (SourcesLog (fst (sources_loop 1 (reranked_nodes ?N ranked_twice) [] []))),
                     CallLog (log_query_result r)]))"
    and l: "int (length (sources r)) \<le> min 3 (int (length ?N))"
    and tx: "map src_text (sources r) = map rr_document (matched_results ?N ranked_twice)"
    and sc: "map src_score (sources r) = map rr_score (matched_results ?N ranked_twice)"
    by blast
  from rerank_overfetch_and_order [of None 5 ?E "[113]" False "()" "[]"] d0
  obtain rest where f: "snd (snd (query ?E [113] None False True ((), []))) =
      [] @ CallRetrieve (2 * 5) [113] # rest"
    by blast
  have sc': "map src_score (sources r) = [0.9, 0.9, 0.8]"
    unfolding sc m by (simp add: ranked_twice_def)
  have tx': "map src_text (sources r) = [[97], [97], [98]]"
    unfolding tx m by (simp add: ranked_twice_def)
  show ?thesis
    using h1' ok sc' tx' l unfolding q f t by simp
qed

text \<open>
  The scores are written on the matched node itself, so a node matched by two results
  of different score shows the later score at both places.
\<close>

lemma rerank_score_overwritten:
  "reranked_nodes [node_a, node_b, node_a']
     [\<lparr>rr_document = [97], rr_score = 0.9\<rparr>, \<lparr>rr_document = [98], rr_score = 0.8\<rparr>,
      \<lparr>rr_document = [97], rr_score = 0.7\<rparr>] =
     [node_a\<lparr>n_score := Some 0.7\<rparr>, node_b\<lparr>n_score := Some 0.8\<rparr>, node_a\<lparr>n_score := Some 0.7\<rparr>]"
proof -
  have "rerank_loop [\<lparr>rr_document = [97], rr_score = 0.9\<rparr>, \<lparr>rr_document = [98], rr_score = 0.8\<rparr>,
      \<lparr>rr_document = [97], rr_score = 0.7\<rparr>] [node_a, node_b, node_a'] [] =
     ([node_a\<lparr>n_score := Some 0.7\<rparr>, node_b\<lparr>n_score := Some 0.8\<rparr>, node_a'], [0, 1, 0])"
    by (simp add: node_a_def node_b_def node_a'_def)
  then show ?thesis unfolding reranked_nodes_def by simp
qed

text \<open>
  C3, as amended.  Let \<open>k\<close> be the desired count as above.  When the retriever returns
  no candidate (and the reranker, keeping its contract, returns none), the context is
  empty, and the calls of the query are exactly the retrieval, the rerank, one call of
  the language model with the template filled with the empty context, and the log
  entries; the answer of the result is the text the language model returns, with no
  sources.  For every context and question the prompt holds the fallback sentence and the
  sentence that forbids information that is not in the known information.
\<close>

theorem empty_retrieval_answer:
  "(((top_k = None \<and> kk = 5) \<or> (top_k = Some 0 \<and> kk = 5) \<or> (top_k = Some kk \<and> kk \<noteq> 0))
      \<and> retrieve env (2 * kk) q w = (Inr [], w1)
      \<and> rank env q [] kk w1 = (Inr rs, w2)
      \<and> rank_answer_ok rs [] kk
      \<and> complete env (format_prompt [] q) w2 = (Inr txt, w3)
      \<and> logger_ok env \<longrightarrow>
      rs = [] \<and> join [NEWLINE, NEWLINE] (map rr_document rs) = [] \<and>
      (\<exists>w4.
         query env q top_k show_sources True (w, tr) =
           (\<lparr>question = q, answer = txt, sources = [], processing_time = elapsed env w3\<rparr>,
            (w4, tr @ [CallRetrieve (2 * kk) q, CallRank q [] kk, CallComplete (format_prompt [] q)]
                 @ (if show_sources then [CallLog (SourcesLog [])] else [])
                 @ [CallLog (log_query_result
                      \<lparr>question = q, answer = txt, sources = [],
                       processing_time = elapsed env w3\<rparr>)]))))
   \<and> sublist fallback_sentence (format_prompt c q)
   \<and> sublist grounding_sentence (format_prompt c q)"
proof -
  have a: "((top_k = None \<and> kk = 5) \<or> (top_k = Some 0 \<and> kk = 5) \<or> (top_k = Some kk \<and> kk \<noteq> 0))
      \<and> retrieve env (2 * kk) q w = (Inr [], w1)
      \<and> rank env q [] kk w1 = (Inr rs, w2)
      \<and> rank_answer_ok rs [] kk
      \<and> complete env (format_prompt [] q) w2 = (Inr txt, w3)
      \<and> logger_ok env \<longrightarrow>
      rs = [] \<and> join [NEWLINE, NEWLINE] (map rr_document rs) = [] \<and>
      (\<exists>w4.
         query env q top_k show_sources True (w, tr) =
           (\<lparr>question = q, answer = txt, sources = [], processing_time = elapsed env w3\<rparr>,
            (w4, tr @ [CallRetrieve (2 * kk) q, CallRank q [] kk, CallComplete (format_prompt [] q)]
                 @ (if show_sources then [CallLog (SourcesLog [])] else [])
                 @ [CallLog (log_query_result
                      \<lparr>question = q, answer = txt, sources = [],
                       processing_time = elapsed env w3\<rparr>)])))"
  proof (intro impI, elim conjE)
    assume d: "(top_k = None \<and> kk = 5) \<or> (top_k = Some 0 \<and> kk = 5) \<or> (top_k = Some kk \<and> kk \<noteq> 0)"
      and h1: "retrieve env (2 * kk) q w = (Inr [], w1)"
      and h2: "rank env q [] kk w1 = (Inr rs, w2)"
      and ok: "rank_answer_ok rs [] kk"
      and h3: "complete env (format_prompt [] q) w2 = (Inr txt, w3)"
      and l: "logger_ok env"
    have k: "top_k_or_default top_k = kk" by (rule desired_count [OF d])
    have k2: "top_k_or_default top_k * 2 = 2 * kk" using k by simp
    have e: "rs = []" using ok unfolding rank_answer_ok_def by simp
    have h1': "retrieve env (top_k_or_default top_k * 2) q w = (Inr [], w1)" using h1 unfolding k2 .
    have h2': "rank env q (map n_text []) (top_k_or_default top_k) w1 = (Inr [], w2)"
      using h2 e unfolding k by simp
    have h3': "complete env (format_prompt (join [NEWLINE, NEWLINE] (map rr_document [])) q) w2
                 = (Inr txt, w3)" using h3 by simp
    have n: "reranked_nodes [] [] = []" by (simp add: reranked_nodes_def)
    from rerank_query_exact [OF h1' h2' h3' l, of show_sources tr]
    show "rs = [] \<and> join [NEWLINE, NEWLINE] (map rr_document rs) = [] \<and>
      (\<exists>w4.
         query env q top_k show_sources True (w, tr) =
           (\<lparr>question = q, answer = txt, sources = [], processing_time = elapsed env w3\<rparr>,
            (w4, tr @ [CallRetrieve (2 * kk) q, CallRank q [] kk, CallComplete (format_prompt [] q)]
                 @ (if show_sources then [CallLog (SourcesLog [])] else [])
                 @ [CallLog (log_query_result
                      \<lparr>question = q, answer = txt, sources = [],
                       processing_time = elapsed env w3\<rparr>)])))"
      unfolding k k2 n using e by auto
  qed
  have b: "sublist fallback_sentence (format_prompt c q)"
    by (rule sublist_format_prompt [OF sublist_tail_fallback])
  have g: "sublist grounding_sentence (format_prompt c q)"
    by (rule sublist_format_prompt [OF sublist_tail_grounding])
  show ?thesis using a b g by (intro conjI)
qed

theorem empty_retrieval_answer_witness:
  "retrieve (canned_env [] (Inr []) (Inr fallback_sentence)) 6 [113] () = (Inr [], ())
   \<and> rank_answer_ok [] [] 3
   \<and> query (canned_env [] (Inr []) (Inr fallback_sentence)) [113] (Some 3) False True ((), []) =
       (\<lparr>question = [113], answer = fallback_sentence, sources = [], processing_time = 1\<rparr>,
        ((), [CallRetrieve 6 [113], CallRank [113] [] 3, CallComplete (format_prompt [] [113]),
              CallLog (log_query_result
                \<lparr>question = [113], answer = fallback_sentence, sources = [],
                 processing_time = 1\<rparr>)]))
   \<and> sublist fallback_sentence (format_prompt [] [113])
   \<and> sublist grounding_sentence (format_prompt [] [113])"
proof -
  let ?E = "canned_env [] (Inr []) (Inr fallback_sentence)"
  have d: "(Some (3::int) = None \<and> (3::int) = 5) \<or> (Some (3::int) = Some 0 \<and> (3::int) = 5)
            \<or> (Some (3::int) = Some 3 \<and> (3::int) \<noteq> 0)" by simp
  have h1: "retrieve ?E (2 * 3) [113] () = (Inr [], ())" by (simp add: canned_env_def)
  have h1': "retrieve ?E 6 [113] () = (Inr [], ())" by (simp add: canned_env_def)
  have h2: "rank ?E [113] [] 3 () = (Inr [], ())" by (simp add: canned_env_def)
  have h3: "complete ?E (format_prompt [] [113]) () = (Inr fallback_sentence, ())"
    by (simp add: canned_env_def)
  have h4: "logger_ok ?E" by (simp add: logger_ok_def canned_env_def)
  have el: "elapsed ?E () = 1" by (simp add: canned_env_def)
  have ok: "rank_answer_ok [] [] 3" by (simp add: rank_answer_ok_def)
  note c = empty_retrieval_answer [of "Some 3" 3 ?E "[113]" "()" "()" "[]" "()" fallback_sentence "()" False "[]" "[]"]
  from c d h1 h2 h3 h4 ok
  obtain w4 where q: "query ?E [113] (Some 3) False True ((), []) =
      (\<lparr>question = [113], answer = fallback_sentence, sources = [],
        processing_time = elapsed ?E ()\<rparr>,
       (w4, [] @ [CallRetrieve (2 * 3) [113], CallRank [113] [] 3,
                  CallComplete (format_prompt [] [113])]
            @ (if False then [CallLog (SourcesLog [])] else [])
            @ [CallLog (log_query_result
                 \<lparr>question = [113], answer = fallback_sentence, sources = [],
                  processing_time = elapsed ?E ()\<rparr>)]))"
    by blast
  have f: "sublist fallback_sentence (format_prompt [] [113])"
    and g: "sublist grounding_sentence (format_prompt [] [113])"
    using c by blast+
  show ?thesis using h1' ok f g unfolding q el by simp
qed

text \<open>
  C3 as stated fails: with no candidates and a language model that returns another
  text, the answer is that text and not the fallback sentence.
\<close>

theorem fallback_answer_counterexample:
  "retrieve (canned_env [] (Inr []) (Inr [52, 50])) 10 [113] () = (Inr [], ())
   \<and> answer (fst (query (canned_env [] (Inr []) (Inr [52, 50])) [113] None True True ((), [])))
       = [52, 50]
   \<and> answer (fst (query (canned_env [] (Inr []) (Inr [52, 50])) [113] None True True ((), [])))
       \<noteq> fallback_sentence"
  by (simp add: query_defs canned_env_def reranked_nodes_def fallback_sentence_def)

end
